theory Spec2Isabelle
  imports Main "HOL-Library.Word"
begin

unbundle bit_operations_syntax

section \<open>JavaScript values\<close>

text \<open>
  The type annotations of the TypeScript sources are erased at run time, so an identifier
  slot can hold any value. Two kinds of value are kept apart here: strings, and
  \<open>undefined\<close> (what destructuring gives for a missing second element).
  \<open>ToString\<close> is the coercion \<open>RegExp.prototype.test\<close> applies to its argument.
\<close>

datatype jsval = JUndefined | JString string

fun ToString :: "jsval \<Rightarrow> string" where
  "ToString JUndefined = ''undefined''"
| "ToString (JString s) = s"

text \<open>Logical NOT of an array object: every object is truthy, the empty array too.\<close>

definition js_not_array :: "'a list \<Rightarrow> bool" where
  "js_not_array arr = False"

section \<open>KDUID.ts: the identifier generator\<close>

type_synonym u32 = "32 word"
type_synonym rand4 = "u32 \<times> u32 \<times> u32 \<times> u32"

text \<open>
  The generator's state: the array \<open>generated\<close>, and how many draws have been taken
  from the random source. The source itself (\<open>window.crypto.getRandomValues\<close> or
  \<open>Math.random\<close>) is a parameter \<open>rnd\<close> of the operations: draw number \<open>i\<close>
  yields the four 32-bit unsigned values \<open>rnd i\<close>.
\<close>

record kduid =
  generated :: "jsval list"
  draws :: nat

text \<open>\<open>let generated = uuids || []\<close>: an absent argument gives the empty array.\<close>

definition KDUID :: "jsval list option \<Rightarrow> kduid" where
  "KDUID uuids = \<lparr>generated = (case uuids of None \<Rightarrow> [] | Some us \<Rightarrow> us), draws = 0\<rparr>"

subsection \<open>The lookup table\<close>

definition hexchar :: "nat \<Rightarrow> char" where
  "hexchar d = ''0123456789abcdef'' ! d"

text \<open>\<open>i.toString(16)\<close> for a non-negative integer.\<close>

function toString16 :: "nat \<Rightarrow> string" where
  "toString16 n = (if n < 16 then [hexchar n] else toString16 (n div 16) @ [hexchar (n mod 16)])"
  by pat_completeness auto
termination
  by (relation "measure (\<lambda>n. n)") auto

declare toString16.simps [simp del]

definition lookup :: "string list" where
  "lookup = map (\<lambda>i. (if i < 16 then ''0'' else '''') @ toString16 i) [0..<256]"

text \<open>
  Reading \<open>lookup[i]\<close>: out of range JavaScript gives \<open>undefined\<close>, which a template
  literal renders as the text \<open>undefined\<close>.
\<close>

definition lookup_at :: "nat \<Rightarrow> string" where
  "lookup_at i = (if i < length lookup then lookup ! i else ''undefined'')"

subsection \<open>formatUid\<close>

text \<open>
  \<open>>>\<close> is the sign-propagating shift on the 32-bit value, \<open>&\<close> and \<open>|\<close> are bitwise on
  32 bits; every index is read as a non-negative number.
\<close>

definition formatUid :: "rand4 \<Rightarrow> string" where
  "formatUid values = (case values of (v0, v1, v2, v3) \<Rightarrow>
     (let v = [
        lookup_at (unat (v0 AND 0xff)),
        lookup_at (unat (signed_drop_bit 8 v0 AND 0xff)),
        lookup_at (unat (signed_drop_bit 16 v0 AND 0xff)),
        lookup_at (unat (signed_drop_bit 24 v0 AND 0xff)),
        lookup_at (unat (v1 AND 0xff)),
        lookup_at (unat (signed_drop_bit 8 v1 AND 0xff)),
        lookup_at (unat ((signed_drop_bit 16 v1 AND 0x0f) OR 0x40)),
        lookup_at (unat (signed_drop_bit 24 v1 AND 0xff)),
        lookup_at (unat ((v2 AND 0x3f) OR 0x80)),
        lookup_at (unat (signed_drop_bit 8 v2 AND 0xff)),
        lookup_at (unat (signed_drop_bit 16 v2 AND 0xff)),
        lookup_at (unat (signed_drop_bit 24 v2 AND 0xff)),
        lookup_at (unat (v3 AND 0xff)),
        lookup_at (unat (signed_drop_bit 8 v3 AND 0xff)),
        lookup_at (unat (signed_drop_bit 16 v3 AND 0xff)),
        lookup_at (unat (signed_drop_bit 24 v3 AND 0xff))];
      s = [
        v ! 0 @ v ! 1 @ v ! 2 @ v ! 3,
        v ! 4 @ v ! 5,
        v ! 6 @ v ! 7,
        v ! 8 @ v ! 9,
        v ! 10 @ v ! 11 @ v ! 12 @ v ! 13 @ v ! 14 @ v ! 15]
      in s ! 0 @ ''-'' @ s ! 1 @ ''-'' @ s ! 2 @ ''-'' @ s ! 3 @ ''-'' @ s ! 4))"

subsection \<open>validator\<close>

text \<open>
  The regular expression
  \<open>/^[0-9A-F]{8}-[0-9A-F]{4}-4[0-9A-F]{3}-[89AB][0-9A-F]{3}-[0-9A-F]{12}$/i\<close>
  is a fixed sequence of character classes between the two anchors; with the flag \<open>i\<close>
  a letter class matches both cases.
\<close>

definition cls_hex :: "char \<Rightarrow> bool" where
  "cls_hex c = (c \<in> set ''0123456789ABCDEFabcdef'')"

definition cls_dash :: "char \<Rightarrow> bool" where
  "cls_dash c = (c = CHR ''-'')"

definition cls_four :: "char \<Rightarrow> bool" where
  "cls_four c = (c = CHR ''4'')"

definition cls_variant :: "char \<Rightarrow> bool" where
  "cls_variant c = (c \<in> set ''89ABab'')"

definition re :: "(char \<Rightarrow> bool) list" where
  "re = replicate 8 cls_hex @ [cls_dash] @ replicate 4 cls_hex @ [cls_dash]
        @ [cls_four] @ replicate 3 cls_hex @ [cls_dash]
        @ [cls_variant] @ replicate 3 cls_hex @ [cls_dash] @ replicate 12 cls_hex"

definition re_test :: "jsval \<Rightarrow> bool" where
  "re_test uid = list_all2 (\<lambda>cls c. cls c) re (ToString uid)"

text \<open>The argument of \<open>validate\<close>: a single value, or an array (\<open>Array.isArray\<close>).\<close>

datatype validate_arg = Single jsval | Array "jsval list"

definition validator :: "validate_arg \<Rightarrow> jsval list" where
  "validator uuids =
     (let arr = (case uuids of Array us \<Rightarrow> us | Single u \<Rightarrow> [u])
      in filter (\<lambda>uid. re_test uid) arr)"

subsection \<open>generate, getExisting, setExisting\<close>

text \<open>
  \<open>while (!uid || generated.includes(uid)) uid = gen()\<close>, with \<open>uid\<close> starting as
  \<open>null\<close>. Nothing bounds the number of rounds, so the loop is a partial function:
  \<open>None\<close> is a call that never returns.
\<close>

partial_function (option) generate_loop ::
  "(nat \<Rightarrow> rand4) \<Rightarrow> jsval list \<Rightarrow> string option \<Rightarrow> nat \<Rightarrow> (string \<times> nat) option" where
  "generate_loop rnd gen uid i =
     (if uid = None \<or> uid = Some [] \<or> JString (the uid) \<in> set gen
      then generate_loop rnd gen (Some (formatUid (rnd i))) (Suc i)
      else Some (the uid, i))"

declare generate_loop.simps [code]

definition generate :: "(nat \<Rightarrow> rand4) \<Rightarrow> kduid \<Rightarrow> (string \<times> kduid) option" where
  "generate rnd g =
     (case generate_loop rnd (generated g) None (draws g) of
        None \<Rightarrow> None
      | Some (uid, i) \<Rightarrow> Some (uid, \<lparr>generated = generated g @ [JString uid], draws = i\<rparr>))"

definition getExisting :: "kduid \<Rightarrow> jsval list" where
  "getExisting g = generated g"

definition setExisting :: "kduid \<Rightarrow> jsval list \<Rightarrow> kduid \<times> bool" where
  "setExisting g uuids =
     (let validated = validator (Array uuids)
      in if length validated = length uuids
         then (g\<lparr>generated := uuids\<rparr>, True)
         else (g, False))"

text \<open>
  A client of one generator: the operations in the order they are called. \<open>run_ops\<close>
  performs them and collects what each \<open>generate()\<close> returned.
\<close>

datatype gen_op = Generate | GetExisting | SetExisting "jsval list" | Validate validate_arg

fun run_ops :: "(nat \<Rightarrow> rand4) \<Rightarrow> kduid \<Rightarrow> gen_op list \<Rightarrow> (string list \<times> kduid) option" where
  "run_ops rnd g [] = Some ([], g)"
| "run_ops rnd g (Generate # ops) =
     (case generate rnd g of
        None \<Rightarrow> None
      | Some (uid, g') \<Rightarrow>
          (case run_ops rnd g' ops of
             None \<Rightarrow> None
           | Some (outs, g'') \<Rightarrow> Some (uid # outs, g'')))"
| "run_ops rnd g (GetExisting # ops) = run_ops rnd g ops"
| "run_ops rnd g (SetExisting uuids # ops) = run_ops rnd (fst (setExisting g uuids)) ops"
| "run_ops rnd g (Validate uuids # ops) = run_ops rnd g ops"

text \<open>
  Along such a sequence, every \<open>setExisting\<close> call that succeeds is given a list that
  holds all the identifiers the generator has in its list at that moment.
\<close>

fun keeps_seen :: "(nat \<Rightarrow> rand4) \<Rightarrow> kduid \<Rightarrow> gen_op list \<Rightarrow> bool" where
  "keeps_seen rnd g [] = True"
| "keeps_seen rnd g (Generate # ops) =
     (case generate rnd g of
        None \<Rightarrow> True
      | Some (uid, g') \<Rightarrow> keeps_seen rnd g' ops)"
| "keeps_seen rnd g (GetExisting # ops) = keeps_seen rnd g ops"
| "keeps_seen rnd g (SetExisting uuids # ops) =
     ((snd (setExisting g uuids) \<longrightarrow> set (generated g) \<subseteq> set uuids)
      \<and> keeps_seen rnd (fst (setExisting g uuids)) ops)"
| "keeps_seen rnd g (Validate uuids # ops) = keeps_seen rnd g ops"

section \<open>KDUIDManager.ts: the association manager\<close>

subsection \<open>The JavaScript Map\<close>

text \<open>
  A \<open>Map\<close> keeps its entries in insertion order, one entry per key: an association
  list. \<open>set\<close> on a present key replaces the value in place, on an absent key appends;
  \<open>get\<close> on an absent key gives \<open>undefined\<close>.
\<close>

definition map_has :: "'k \<Rightarrow> ('k \<times> jsval) list \<Rightarrow> bool" where
  "map_has k m = (k \<in> set (map fst m))"

definition map_get :: "'k \<Rightarrow> ('k \<times> jsval) list \<Rightarrow> jsval" where
  "map_get k m = (case map_of m k of None \<Rightarrow> JUndefined | Some v \<Rightarrow> v)"

definition map_delete :: "'k \<Rightarrow> ('k \<times> jsval) list \<Rightarrow> ('k \<times> jsval) list" where
  "map_delete k m = filter (\<lambda>e. fst e \<noteq> k) m"

definition map_set :: "'k \<Rightarrow> jsval \<Rightarrow> ('k \<times> jsval) list \<Rightarrow> ('k \<times> jsval) list" where
  "map_set k v m =
     (if map_has k m then map (\<lambda>e. if fst e = k then (k, v) else e) m else m @ [(k, v)])"

subsection \<open>The manager\<close>

record 'k manager =
  generator :: kduid
  map_tbl :: "('k \<times> jsval) list"

definition KDUIDManager :: "unit \<Rightarrow> 'k manager" where
  "KDUIDManager u = \<lparr>generator = KDUID None, map_tbl = []\<rparr>"

definition updateGenerator :: "'k manager \<Rightarrow> 'k manager \<times> bool" where
  "updateGenerator s =
     (let uids = map snd (map_tbl s);
          (g, ok) = setExisting (generator s) uids
      in (s\<lparr>generator := g\<rparr>, ok))"

definition generateUIDFor ::
  "(nat \<Rightarrow> rand4) \<Rightarrow> 'k manager \<Rightarrow> 'k \<Rightarrow> (string \<times> 'k manager) option" where
  "generateUIDFor rnd s target =
     (case generate rnd (generator s) of
        None \<Rightarrow> None
      | Some (uid, g) \<Rightarrow>
          (let m1 = (if map_has target (map_tbl s) then map_delete target (map_tbl s)
                     else map_tbl s);
               m2 = map_set target (JString uid) m1
           in Some (uid, \<lparr>generator = g, map_tbl = m2\<rparr>)))"

definition hasUIDFor :: "'k manager \<Rightarrow> 'k \<Rightarrow> bool" where
  "hasUIDFor s target = map_has target (map_tbl s)"

definition getUIDFor :: "'k manager \<Rightarrow> 'k \<Rightarrow> jsval" where
  "getUIDFor s target = map_get target (map_tbl s)"

definition keys :: "'k manager \<Rightarrow> 'k list" where
  "keys s = map fst (map_tbl s)"

definition uids :: "'k manager \<Rightarrow> jsval list" where
  "uids s = map snd (map_tbl s)"

definition entries :: "'k manager \<Rightarrow> ('k \<times> jsval) list" where
  "entries s = map_tbl s"

fun hasKeyFor_loop :: "jsval list \<Rightarrow> jsval \<Rightarrow> bool" where
  "hasKeyFor_loop [] uid = False"
| "hasKeyFor_loop (v # rest) uid = (if v = uid then True else hasKeyFor_loop rest uid)"

definition hasKeyFor :: "'k manager \<Rightarrow> jsval \<Rightarrow> bool" where
  "hasKeyFor s uid = hasKeyFor_loop (map snd (map_tbl s)) uid"

text \<open>\<open>None\<close> is the bare \<open>return\<close> after the loop: the caller gets \<open>undefined\<close>.\<close>

fun getKeyFor_loop :: "('k \<times> jsval) list \<Rightarrow> jsval \<Rightarrow> 'k option" where
  "getKeyFor_loop [] uid = None"
| "getKeyFor_loop ((key, v) # rest) uid = (if v = uid then Some key else getKeyFor_loop rest uid)"

definition getKeyFor :: "'k manager \<Rightarrow> jsval \<Rightarrow> 'k option" where
  "getKeyFor s uid = getKeyFor_loop (map_tbl s) uid"

fun deleteEntryForUID_loop ::
  "'k manager \<Rightarrow> ('k \<times> jsval) list \<Rightarrow> jsval \<Rightarrow> 'k manager \<times> bool" where
  "deleteEntryForUID_loop s [] uid = (s, False)"
| "deleteEntryForUID_loop s ((key, v) # rest) uid =
     (if v = uid
      then (fst (updateGenerator (s\<lparr>map_tbl := map_delete key (map_tbl s)\<rparr>)), True)
      else deleteEntryForUID_loop s rest uid)"

definition deleteEntryForUID :: "'k manager \<Rightarrow> jsval \<Rightarrow> 'k manager \<times> bool" where
  "deleteEntryForUID s uid =
     (let es = map_tbl s
      in if length es \<noteq> 0 then deleteEntryForUID_loop s es uid else (s, False))"

definition deleteEntryForKey :: "'k manager \<Rightarrow> 'k \<Rightarrow> 'k manager \<times> bool" where
  "deleteEntryForKey s target =
     (if map_has target (map_tbl s)
      then (fst (updateGenerator (s\<lparr>map_tbl := map_delete target (map_tbl s)\<rparr>)), True)
      else (s, False))"

definition reset :: "'k manager \<Rightarrow> 'k manager" where
  "reset s = fst (updateGenerator (s\<lparr>map_tbl := []\<rparr>))"

subsection \<open>setEntries\<close>

text \<open>
  What the caller may pass. An element of the array is one of three things:
  \<^item> \<open>Entry key uid\<close>: something the pattern \<open>const [key, uid] = entry\<close> can take
    apart, with an identifier that has a string conversion (a missing second item reads
    as \<open>undefined\<close>);
  \<^item> \<open>EntryNoString key\<close>: something the pattern can take apart, with an identifier
    that has no string conversion (a \<open>Symbol\<close>, an object whose \<open>toString\<close> throws):
    \<open>re.test\<close> raises a \<open>TypeError\<close> inside \<open>validate\<close>;
  \<^item> \<open>NotIterable\<close>: a value on which the pattern itself raises a \<open>TypeError\<close> (a
    number, \<open>null\<close>, a plain object).
  The argument as a whole is an array, a value on which \<open>Array.isArray\<close> returns
  \<open>false\<close>, or a revoked \<open>Proxy\<close>, on which \<open>Array.isArray\<close> itself raises a
  \<open>TypeError\<close>.
\<close>

datatype 'k entry_arg = Entry 'k jsval | EntryNoString 'k | NotIterable

datatype 'k entries_arg = EntriesArray "'k entry_arg list" | NotArray | RevokedProxy

datatype 'k setEntries_result =
  Report "('k \<times> string) list" "'k entry_arg list"
| RFalse

text \<open>
  \<open>Report changed invalid\<close> is the object \<open>{ changed: changed, invalid: invalid }\<close>,
  \<open>RFalse\<close> the value \<open>false\<close>.
\<close>

text \<open>How a block of statements ends: with a value, or with an exception on its way out.\<close>

datatype 'a completion = Return 'a | Throw

type_synonym 'k acc = "'k manager \<times> ('k \<times> string) list \<times> 'k entry_arg list"

definition handleValid :: "(nat \<Rightarrow> rand4) \<Rightarrow> 'k acc \<Rightarrow> 'k \<Rightarrow> jsval \<Rightarrow> 'k acc option" where
  "handleValid rnd a key uid = (case a of (s, changed, invalid) \<Rightarrow>
     (let uidExists = (uid \<in> set (uids s))
      in if uidExists
         then (case generateUIDFor rnd s key of
                 None \<Rightarrow> None
               | Some (u, s') \<Rightarrow> Some (s', changed @ [(key, u)], invalid))
         else Some (s\<lparr>map_tbl := map_set key uid (map_tbl s)\<rparr>, changed, invalid)))"

text \<open>
  One call of the \<open>forEach\<close> callback. \<open>Inl\<close> is an exception leaving the callback,
  with the state it leaves behind.
\<close>

definition setEntries_each ::
  "(nat \<Rightarrow> rand4) \<Rightarrow> 'k acc \<Rightarrow> 'k entry_arg \<Rightarrow> ('k acc + 'k acc) option" where
  "setEntries_each rnd a entry =
     (case entry of
        NotIterable \<Rightarrow> Some (Inl a)
      | EntryNoString key \<Rightarrow> Some (Inl a)
      | Entry key uid \<Rightarrow>
          (let isValidUID = validator (Single uid)
           in if js_not_array isValidUID
              then (case a of (s, changed, invalid) \<Rightarrow> Some (Inr (s, changed, invalid @ [entry])))
              else map_option Inr (handleValid rnd a key uid)))"

fun setEntries_forEach ::
  "(nat \<Rightarrow> rand4) \<Rightarrow> 'k acc \<Rightarrow> 'k entry_arg list \<Rightarrow> ('k acc + 'k acc) option" where
  "setEntries_forEach rnd a [] = Some (Inr a)"
| "setEntries_forEach rnd a (entry # rest) =
     (case setEntries_each rnd a entry of
        None \<Rightarrow> None
      | Some (Inl a') \<Rightarrow> Some (Inl a')
      | Some (Inr a') \<Rightarrow> setEntries_forEach rnd a' rest)"

text \<open>The body of the \<open>try\<close> block.\<close>

definition setEntries_try ::
  "(nat \<Rightarrow> rand4) \<Rightarrow> 'k manager \<Rightarrow> 'k entry_arg list
     \<Rightarrow> ('k manager \<times> 'k setEntries_result completion) option" where
  "setEntries_try rnd s es =
     (case setEntries_forEach rnd (s\<lparr>map_tbl := []\<rparr>, [], []) es of
        None \<Rightarrow> None
      | Some (Inl (s', changed, invalid)) \<Rightarrow> Some (s', Throw)
      | Some (Inr (s', changed, invalid)) \<Rightarrow>
          Some (fst (updateGenerator s'), Return (Report changed invalid)))"

text \<open>
  The whole operation: the \<open>Array.isArray\<close> test, which stands outside the \<open>try\<close>
  block, so that an exception it raises reaches the caller; then the \<open>try\<close> and its
  \<open>catch\<close>.
\<close>

definition setEntries ::
  "(nat \<Rightarrow> rand4) \<Rightarrow> 'k manager \<Rightarrow> 'k entries_arg
     \<Rightarrow> ('k manager \<times> 'k setEntries_result completion) option" where
  "setEntries rnd s es_arg =
     (case es_arg of
        EntriesArray es \<Rightarrow>
          (case setEntries_try rnd s es of
             None \<Rightarrow> None
           | Some (s', Throw) \<Rightarrow> Some (s', Return RFalse)
           | Some (s', Return r) \<Rightarrow> Some (s', Return r))
      | NotArray \<Rightarrow> Some (s, Return RFalse)
      | RevokedProxy \<Rightarrow> Some (s, Throw))"



section \<open>The identifier format, as the specification words it\<close>

text \<open>
  Lowercase output of the generator: five groups separated by hyphens, of lengths
  8, 4, 4, 4 and 12, all lowercase hexadecimal; the third group starts with \<open>4\<close>,
  the fourth with one of \<open>8\<close>, \<open>9\<close>, \<open>a\<close>, \<open>b\<close>. \<open>split_dash\<close> is
  \<open>uid.split('-')\<close>.
\<close>

definition lower_hex :: "char \<Rightarrow> bool" where
  "lower_hex c = (c \<in> set ''0123456789abcdef'')"

fun split_dash :: "string \<Rightarrow> string list" where
  "split_dash [] = [[]]"
| "split_dash (c # cs) =
     (if c = CHR ''-'' then [] # split_dash cs
      else (case split_dash cs of [] \<Rightarrow> [[c]] | g # gs \<Rightarrow> (c # g) # gs))"

definition v4_lower_groups :: "string \<Rightarrow> bool" where
  "v4_lower_groups s =
     (case split_dash s of
        [g1, g2, g3, g4, g5] \<Rightarrow>
          map length [g1, g2, g3, g4, g5] = [8, 4, 4, 4, 12]
          \<and> list_all lower_hex (g1 @ g2 @ g3 @ g4 @ g5)
          \<and> hd g3 = CHR ''4'' \<and> hd g4 \<in> set ''89ab''
      | _ \<Rightarrow> False)"

text \<open>
  The format of an identifier on input: 36 characters
  \<open>xxxxxxxx-xxxx-4xxx-yxxx-xxxxxxxxxxxx\<close>, \<open>x\<close> a hexadecimal digit of either case,
  \<open>y\<close> one of \<open>8\<close>, \<open>9\<close>, \<open>A\<close>, \<open>B\<close> of either case.
\<close>

definition v4_format :: "string \<Rightarrow> bool" where
  "v4_format s =
     (length s = 36 \<and>
      list_all (\<lambda>i. let c = s ! i in
                  if i \<in> {8, 13, 18, 23} then c = CHR ''-''
                  else if i = 14 then c = CHR ''4''
                  else if i = 19 then c \<in> set ''89ABab''
                  else c \<in> set ''0123456789ABCDEFabcdef'') [0..<36])"

text \<open>A byte of the lookup table: two lowercase hexadecimal digits.\<close>

definition hex2 :: "string \<Rightarrow> bool" where
  "hex2 b = (length b = 2 \<and> list_all lower_hex b)"

section \<open>Inputs used in the examples\<close>

text \<open>
  A random source whose draw number \<open>i\<close> is \<open>(i, 0, 0, 0)\<close>, the identifiers its
  first two draws format to, and the identifier of the test suite in both cases.
\<close>

definition rnd0 :: "nat \<Rightarrow> rand4" where
  "rnd0 i = (of_nat i, 0, 0, 0)"

abbreviation uid_0 :: string where "uid_0 \<equiv> ''00000000-0000-4000-8000-000000000000''"
abbreviation uid_1 :: string where "uid_1 \<equiv> ''01000000-0000-4000-8000-000000000000''"
abbreviation uid_A :: string where "uid_A \<equiv> ''AA97B177-9383-4934-8543-0F91A7A02836''"
abbreviation uid_a :: string where "uid_a \<equiv> ''aa97b177-9383-4934-8543-0f91a7a02836''"

text \<open>A random source that returns the same four values at every draw.\<close>

definition rnd_same :: "nat \<Rightarrow> rand4" where
  "rnd_same i = (0, 0, 0, 0)"

text \<open>\<open>toLowerCase\<close> on ASCII text.\<close>

definition to_lower :: "char \<Rightarrow> char" where
  "to_lower c =
     (case map_of (zip ''ABCDEFGHIJKLMNOPQRSTUVWXYZ'' ''abcdefghijklmnopqrstuvwxyz'') c of
        None \<Rightarrow> c | Some l \<Rightarrow> l)"

definition toLowerCase :: "string \<Rightarrow> string" where
  "toLowerCase s = map to_lower s"

section \<open>The lookup table and the format of generated identifiers\<close>

lemma hexchar_lowhex: "d < 16 \<Longrightarrow> hexchar d \<in> set ''0123456789abcdef''"
  unfolding hexchar_def by (rule nth_mem) simp

lemma toString16_small: "n < 16 \<Longrightarrow> toString16 n = [hexchar n]"
  by (simp add: toString16.simps)

lemma toString16_byte: "16 \<le> n \<Longrightarrow> n < 256 \<Longrightarrow> toString16 n = [hexchar (n div 16), hexchar (n mod 16)]"
  by (subst toString16.simps) (simp add: toString16_small less_mult_imp_div_less)

lemma lookup_at_byte: "i < 256 \<Longrightarrow> lookup_at i = [hexchar (i div 16), hexchar (i mod 16)]"
proof (cases "i < 16")
  case True
  then have "hexchar (i div 16) = CHR ''0''" by (simp add: hexchar_def)
  with True show ?thesis by (simp add: lookup_at_def lookup_def toString16_small)
next
  case False
  assume "i < 256"
  with False show ?thesis by (simp add: lookup_at_def lookup_def toString16_byte)
qed

lemma unat_and_le: "unat ((w :: u32) AND m) \<le> unat m"
  by (rule word_and_le1 [THEN word_le_nat_alt [THEN iffD1]])

lemma unat_and_ff: "unat ((w :: u32) AND 0xff) < 256"
  using unat_and_le [of w "0xff"] by simp

lemma unat_version: "unat (((w :: u32) AND 0x0f) OR 0x40) = unat (w AND 0x0f) + 64"
proof -
  have "(w AND 0x0f) AND 0x40 = 0" by (simp add: word_bw_assocs)
  then have "(w AND 0x0f) OR 0x40 = (w AND 0x0f) + 0x40"
    by (simp add: disjunctive_add_eq_or)
  moreover have "unat (w AND 0x0f) \<le> 15" using unat_and_le [of w "0x0f"] by simp
  ultimately show ?thesis by (simp add: unat_word_ariths)
qed

lemma unat_variant: "unat (((w :: u32) AND 0x3f) OR 0x80) = unat (w AND 0x3f) + 128"
proof -
  have "(w AND 0x3f) AND 0x80 = 0" by (simp add: word_bw_assocs)
  then have "(w AND 0x3f) OR 0x80 = (w AND 0x3f) + 0x80"
    by (simp add: disjunctive_add_eq_or)
  moreover have "unat (w AND 0x3f) \<le> 63" using unat_and_le [of w "0x3f"] by simp
  ultimately show ?thesis by (simp add: unat_word_ariths)
qed

lemma nth_lits:
  "(x0 # xs) ! 0 = x0"
  "(x0 # x1 # xs) ! 1 = x1"
  "(x0 # x1 # x2 # xs) ! 2 = x2"
  "(x0 # x1 # x2 # x3 # xs) ! 3 = x3"
  "(x0 # x1 # x2 # x3 # x4 # xs) ! 4 = x4"
  "(x0 # x1 # x2 # x3 # x4 # x5 # xs) ! 5 = x5"
  "(x0 # x1 # x2 # x3 # x4 # x5 # x6 # xs) ! 6 = x6"
  "(x0 # x1 # x2 # x3 # x4 # x5 # x6 # x7 # xs) ! 7 = x7"
  "(x0 # x1 # x2 # x3 # x4 # x5 # x6 # x7 # x8 # xs) ! 8 = x8"
  "(x0 # x1 # x2 # x3 # x4 # x5 # x6 # x7 # x8 # x9 # xs) ! 9 = x9"
  "(x0 # x1 # x2 # x3 # x4 # x5 # x6 # x7 # x8 # x9 # x10 # xs) ! 10 = x10"
  "(x0 # x1 # x2 # x3 # x4 # x5 # x6 # x7 # x8 # x9 # x10 # x11 # xs) ! 11 = x11"
  "(x0 # x1 # x2 # x3 # x4 # x5 # x6 # x7 # x8 # x9 # x10 # x11 # x12 # xs) ! 12 = x12"
  "(x0 # x1 # x2 # x3 # x4 # x5 # x6 # x7 # x8 # x9 # x10 # x11 # x12 # x13 # xs) ! 13 = x13"
  "(x0 # x1 # x2 # x3 # x4 # x5 # x6 # x7 # x8 # x9 # x10 # x11 # x12 # x13 # x14 # xs) ! 14 = x14"
  "(x0 # x1 # x2 # x3 # x4 # x5 # x6 # x7 # x8 # x9 # x10 # x11 # x12 # x13 # x14 # x15 # xs) ! 15 = x15"
  by simp_all

lemma formatUid_shape:
  "formatUid (v0, v1, v2, v3) =
     (lookup_at (unat (v0 AND 0xff)) @ lookup_at (unat (signed_drop_bit 8 v0 AND 0xff))
        @ lookup_at (unat (signed_drop_bit 16 v0 AND 0xff)) @ lookup_at (unat (signed_drop_bit 24 v0 AND 0xff)))
     @ ''-'' @ (lookup_at (unat (v1 AND 0xff)) @ lookup_at (unat (signed_drop_bit 8 v1 AND 0xff)))
     @ ''-'' @ (lookup_at (unat ((signed_drop_bit 16 v1 AND 0x0f) OR 0x40)) @ lookup_at (unat (signed_drop_bit 24 v1 AND 0xff)))
     @ ''-'' @ (lookup_at (unat ((v2 AND 0x3f) OR 0x80)) @ lookup_at (unat (signed_drop_bit 8 v2 AND 0xff)))
     @ ''-'' @ (lookup_at (unat (signed_drop_bit 16 v2 AND 0xff)) @ lookup_at (unat (signed_drop_bit 24 v2 AND 0xff))
        @ lookup_at (unat (v3 AND 0xff)) @ lookup_at (unat (signed_drop_bit 8 v3 AND 0xff))
        @ lookup_at (unat (signed_drop_bit 16 v3 AND 0xff)) @ lookup_at (unat (signed_drop_bit 24 v3 AND 0xff)))"
  unfolding formatUid_def prod.case Let_def nth_lits ..

lemma hexchar_lower_hex: "d < 16 \<Longrightarrow> lower_hex (hexchar d)"
  unfolding lower_hex_def by (rule hexchar_lowhex)

lemma lookup_at_hex2: "i < 256 \<Longrightarrow> hex2 (lookup_at i)"
  by (simp add: lookup_at_byte hex2_def hexchar_lower_hex less_mult_imp_div_less)

lemma hex2_byte: "hex2 (lookup_at (unat ((w :: u32) AND 0xff)))"
  by (rule lookup_at_hex2) (rule unat_and_ff)

lemma version_byte:
  "hex2 (lookup_at (unat (((w :: u32) AND 0x0f) OR 0x40)))"
  "hd (lookup_at (unat (((w :: u32) AND 0x0f) OR 0x40))) = CHR ''4''"
proof -
  let ?n = "unat ((w AND 0x0f) OR 0x40)"
  have le: "unat (w AND 0x0f) \<le> 15" using unat_and_le [of w "0x0f"] by simp
  then have lt: "?n < 256" and d: "?n div 16 = 4" by (simp_all add: unat_version)
  from lt show "hex2 (lookup_at ?n)" by (rule lookup_at_hex2)
  from lt d show "hd (lookup_at ?n) = CHR ''4''" by (simp add: lookup_at_byte hexchar_def)
qed

lemma variant_byte:
  "hex2 (lookup_at (unat (((w :: u32) AND 0x3f) OR 0x80)))"
  "hd (lookup_at (unat (((w :: u32) AND 0x3f) OR 0x80))) \<in> set ''89ab''"
proof -
  let ?n = "unat ((w AND 0x3f) OR 0x80)"
  have le: "unat (w AND 0x3f) \<le> 63" using unat_and_le [of w "0x3f"] by simp
  then have lt: "?n < 256" and d: "?n div 16 \<in> {8, 9, 10, 11}"
    by (simp_all add: unat_variant) arith
  from lt show "hex2 (lookup_at ?n)" by (rule lookup_at_hex2)
  from lt d show "hd (lookup_at ?n) \<in> set ''89ab''"
    by (auto simp: lookup_at_byte hexchar_def)
qed

lemma hex2_hd_append: "hex2 a \<Longrightarrow> hd (a @ b) = hd a"
  by (cases a) (simp_all add: hex2_def)

lemma split_dash_group:
  "list_all (\<lambda>c. c \<noteq> CHR ''-'') g \<Longrightarrow> split_dash (g @ CHR ''-'' # rest) = g # split_dash rest"
  by (induction g) simp_all

lemma split_dash_last: "list_all (\<lambda>c. c \<noteq> CHR ''-'') g \<Longrightarrow> split_dash g = [g]"
  by (induction g) simp_all

lemma lower_hex_no_dash: "list_all lower_hex g \<Longrightarrow> list_all (\<lambda>c. c \<noteq> CHR ''-'') g"
  by (induction g) (auto simp: lower_hex_def)

lemma v4_lower_groupsI:
  assumes "length g1 = 8" "length g2 = 4" "length g3 = 4" "length g4 = 4" "length g5 = 12"
    and "list_all lower_hex g1" "list_all lower_hex g2" "list_all lower_hex g3"
      "list_all lower_hex g4" "list_all lower_hex g5"
    and "hd g3 = CHR ''4''" "hd g4 \<in> set ''89ab''"
  shows "v4_lower_groups (g1 @ ''-'' @ g2 @ ''-'' @ g3 @ ''-'' @ g4 @ ''-'' @ g5)"
proof -
  have "split_dash (g1 @ ''-'' @ g2 @ ''-'' @ g3 @ ''-'' @ g4 @ ''-'' @ g5) = [g1, g2, g3, g4, g5]"
    using assms(6-10) by (simp add: split_dash_group split_dash_last lower_hex_no_dash)
  with assms show ?thesis by (simp add: v4_lower_groups_def)
qed

lemma list_all2_replicate_cls:
  "length g = n \<Longrightarrow> list_all p g \<Longrightarrow> list_all2 (\<lambda>cls c. cls c) (replicate n p) g"
  by (induction g arbitrary: n) auto

lemma lower_hex_cls_hex: "lower_hex c \<Longrightarrow> cls_hex c"
  by (auto simp: lower_hex_def cls_hex_def)

lemma list_all_cls_hex: "list_all lower_hex g \<Longrightarrow> list_all cls_hex g"
  by (induction g) (simp_all add: lower_hex_cls_hex)

lemma re_group: "length g = n \<Longrightarrow> list_all lower_hex g \<Longrightarrow>
   list_all2 (\<lambda>cls c. cls c) (replicate n cls_hex) g"
  by (rule list_all2_replicate_cls) (simp_all add: list_all_cls_hex)

lemma re_marked_group:
  assumes "length g = 4" "list_all lower_hex g" "p (hd g)"
  shows "list_all2 (\<lambda>cls c. cls c) ([p] @ replicate 3 cls_hex) g"
proof -
  from assms(1) obtain c g' where g: "g = c # g'" and l: "length g' = 3"
    by (cases g) auto
  from assms(2) g have "list_all lower_hex g'" by simp
  with l have "list_all2 (\<lambda>cls c. cls c) (replicate 3 cls_hex) g'" by (rule re_group)
  with assms(3) g show ?thesis by simp
qed

lemma v4_groups_re_test:
  assumes "length g1 = 8" "length g2 = 4" "length g3 = 4" "length g4 = 4" "length g5 = 12"
    and "list_all lower_hex g1" "list_all lower_hex g2" "list_all lower_hex g3"
      "list_all lower_hex g4" "list_all lower_hex g5"
    and "hd g3 = CHR ''4''" "hd g4 \<in> set ''89ab''"
  shows "re_test (JString (g1 @ ''-'' @ g2 @ ''-'' @ g3 @ ''-'' @ g4 @ ''-'' @ g5))"
proof -
  let ?m = "list_all2 (\<lambda>cls c. cls c)"
  have dash: "?m [cls_dash] ''-''" by (simp add: cls_dash_def)
  have c1: "?m (replicate 8 cls_hex) g1" using assms(1,6) by (rule re_group)
  have c2: "?m (replicate 4 cls_hex) g2" using assms(2,7) by (rule re_group)
  have c3: "?m ([cls_four] @ replicate 3 cls_hex) g3"
    using assms(3,8) by (rule re_marked_group) (simp add: cls_four_def assms(11))
  have "cls_variant (hd g4)" using assms(12) by (auto simp: cls_variant_def)
  with assms(4,9) have c4: "?m ([cls_variant] @ replicate 3 cls_hex) g4" by (rule re_marked_group)
  have c5: "?m (replicate 12 cls_hex) g5" using assms(5,10) by (rule re_group)
  have "?m (replicate 8 cls_hex @ [cls_dash] @ replicate 4 cls_hex @ [cls_dash]
        @ ([cls_four] @ replicate 3 cls_hex) @ [cls_dash]
        @ ([cls_variant] @ replicate 3 cls_hex) @ [cls_dash] @ replicate 12 cls_hex)
        (g1 @ ''-'' @ g2 @ ''-'' @ g3 @ ''-'' @ g4 @ ''-'' @ g5)"
    by (intro list_all2_appendI c1 c2 c3 c4 c5 dash)
  then show ?thesis by (simp add: re_test_def re_def)
qed

lemma re_explicit: "re = 
  [cls_hex, cls_hex, cls_hex, cls_hex, cls_hex, cls_hex, cls_hex, cls_hex, cls_dash,
   cls_hex, cls_hex, cls_hex, cls_hex, cls_dash,
   cls_four, cls_hex, cls_hex, cls_hex, cls_dash,
   cls_variant, cls_hex, cls_hex, cls_hex, cls_dash,
   cls_hex, cls_hex, cls_hex, cls_hex, cls_hex, cls_hex, cls_hex, cls_hex, cls_hex, cls_hex, cls_hex, cls_hex]"
  by (simp add: re_def numeral_eq_Suc)

lemma upt36: "[0..<36] = [0,1,2,3,4,5,6,7,8,9,10,11,12,13,14,15,16,17,18,19,20,21,22,23,24,25,26,27,28,29,30,31,32,33,34,35]"
  by (simp add: upt_rec)

lemma re_test_v4_format: "re_test (JString s) = v4_format s"
proof (cases "length s = 36")
  case False
  then show ?thesis by (auto simp: re_test_def v4_format_def re_explicit dest: list_all2_lengthD)
next
  case True
  then obtain c0 c1 c2 c3 c4 c5 c6 c7 c8 c9 c10 c11 c12 c13 c14 c15 c16 c17 c18 c19 c20 c21 c22 c23 c24 c25 c26 c27 c28 c29 c30 c31 c32 c33 c34 c35
    where s: "s = [c0,c1,c2,c3,c4,c5,c6,c7,c8,c9,c10,c11,c12,c13,c14,c15,c16,c17,c18,c19,c20,c21,c22,c23,c24,c25,c26,c27,c28,c29,c30,c31,c32,c33,c34,c35]"
    by (auto simp: length_Suc_conv numeral_eq_Suc)
  show ?thesis
    unfolding s re_test_def v4_format_def re_explicit upt36
    by (simp add: cls_hex_def cls_dash_def cls_four_def cls_variant_def)
qed

lemma formatUid_parts:
  "\<exists>g1 g2 g3 g4 g5. formatUid vals = g1 @ ''-'' @ g2 @ ''-'' @ g3 @ ''-'' @ g4 @ ''-'' @ g5
     \<and> length g1 = 8 \<and> length g2 = 4 \<and> length g3 = 4 \<and> length g4 = 4 \<and> length g5 = 12
     \<and> list_all lower_hex g1 \<and> list_all lower_hex g2 \<and> list_all lower_hex g3
     \<and> list_all lower_hex g4 \<and> list_all lower_hex g5
     \<and> hd g3 = CHR ''4'' \<and> hd g4 \<in> set ''89ab''"
proof -
  obtain v0 v1 v2 v3 where v: "vals = (v0, v1, v2, v3)" by (cases vals) auto
  define b0 where "b0 = lookup_at (unat (v0 AND 0xff))"
  define b1 where "b1 = lookup_at (unat (signed_drop_bit 8 v0 AND 0xff))"
  define b2 where "b2 = lookup_at (unat (signed_drop_bit 16 v0 AND 0xff))"
  define b3 where "b3 = lookup_at (unat (signed_drop_bit 24 v0 AND 0xff))"
  define b4 where "b4 = lookup_at (unat (v1 AND 0xff))"
  define b5 where "b5 = lookup_at (unat (signed_drop_bit 8 v1 AND 0xff))"
  define b6 where "b6 = lookup_at (unat ((signed_drop_bit 16 v1 AND 0x0f) OR 0x40))"
  define b7 where "b7 = lookup_at (unat (signed_drop_bit 24 v1 AND 0xff))"
  define b8 where "b8 = lookup_at (unat ((v2 AND 0x3f) OR 0x80))"
  define b9 where "b9 = lookup_at (unat (signed_drop_bit 8 v2 AND 0xff))"
  define b10 where "b10 = lookup_at (unat (signed_drop_bit 16 v2 AND 0xff))"
  define b11 where "b11 = lookup_at (unat (signed_drop_bit 24 v2 AND 0xff))"
  define b12 where "b12 = lookup_at (unat (v3 AND 0xff))"
  define b13 where "b13 = lookup_at (unat (signed_drop_bit 8 v3 AND 0xff))"
  define b14 where "b14 = lookup_at (unat (signed_drop_bit 16 v3 AND 0xff))"
  define b15 where "b15 = lookup_at (unat (signed_drop_bit 24 v3 AND 0xff))"
  note defs = b0_def b1_def b2_def b3_def b4_def b5_def b6_def b7_def b8_def b9_def
    b10_def b11_def b12_def b13_def b14_def b15_def
  have h: "hex2 b0" "hex2 b1" "hex2 b2" "hex2 b3" "hex2 b4" "hex2 b5" "hex2 b6" "hex2 b7"
    "hex2 b8" "hex2 b9" "hex2 b10" "hex2 b11" "hex2 b12" "hex2 b13" "hex2 b14" "hex2 b15"
    unfolding defs by (rule hex2_byte version_byte(1) variant_byte(1))+
  have hd6: "hd (b6 @ b7) = CHR ''4''"
    using h(7) version_byte(2) [of "signed_drop_bit 16 v1"] by (simp add: hex2_hd_append b6_def)
  have hd8: "hd (b8 @ b9) \<in> set ''89ab''"
    using h(9) variant_byte(2) [of v2] by (simp only: hex2_hd_append b8_def)
  have shape: "formatUid vals = (b0 @ b1 @ b2 @ b3) @ ''-'' @ (b4 @ b5) @ ''-'' @ (b6 @ b7)
      @ ''-'' @ (b8 @ b9) @ ''-'' @ (b10 @ b11 @ b12 @ b13 @ b14 @ b15)"
    unfolding v formatUid_shape defs ..
  have l: "length (b0 @ b1 @ b2 @ b3) = 8" "length (b4 @ b5) = 4" "length (b6 @ b7) = 4"
    "length (b8 @ b9) = 4" "length (b10 @ b11 @ b12 @ b13 @ b14 @ b15) = 12"
    using h by (simp_all add: hex2_def)
  have a: "list_all lower_hex (b0 @ b1 @ b2 @ b3)" "list_all lower_hex (b4 @ b5)"
    "list_all lower_hex (b6 @ b7)" "list_all lower_hex (b8 @ b9)"
    "list_all lower_hex (b10 @ b11 @ b12 @ b13 @ b14 @ b15)"
    using h by (simp_all add: hex2_def)
  from shape l a hd6 hd8 show ?thesis by blast
qed

lemma formatUid_groups: "v4_lower_groups (formatUid vals)"
proof -
  from formatUid_parts [of vals] obtain g1 g2 g3 g4 g5 where
    "formatUid vals = g1 @ ''-'' @ g2 @ ''-'' @ g3 @ ''-'' @ g4 @ ''-'' @ g5"
    "length g1 = 8" "length g2 = 4" "length g3 = 4" "length g4 = 4" "length g5 = 12"
    "list_all lower_hex g1" "list_all lower_hex g2" "list_all lower_hex g3"
    "list_all lower_hex g4" "list_all lower_hex g5"
    "hd g3 = CHR ''4''" "hd g4 \<in> set ''89ab''"
    by blast
  then show ?thesis by (simp only: v4_lower_groupsI)
qed

lemma formatUid_valid: "re_test (JString (formatUid vals))"
proof -
  from formatUid_parts [of vals] obtain g1 g2 g3 g4 g5 where
    "formatUid vals = g1 @ ''-'' @ g2 @ ''-'' @ g3 @ ''-'' @ g4 @ ''-'' @ g5"
    "length g1 = 8" "length g2 = 4" "length g3 = 4" "length g4 = 4" "length g5 = 12"
    "list_all lower_hex g1" "list_all lower_hex g2" "list_all lower_hex g3"
    "list_all lower_hex g4" "list_all lower_hex g5"
    "hd g3 = CHR ''4''" "hd g4 \<in> set ''89ab''"
    by blast
  then show ?thesis by (simp only: v4_groups_re_test)
qed

lemma formatUid_nonempty: "formatUid vals \<noteq> []"
  using formatUid_parts [of vals] by auto

section \<open>The generator\<close>

lemma generate_loop_sound:
  assumes "generate_loop rnd gen uid i = Some y"
  shows "JString (fst y) \<notin> set gen \<and> fst y \<noteq> []
     \<and> (uid = Some (fst y) \<and> snd y = i \<or> (\<exists>k\<ge>i. fst y = formatUid (rnd k) \<and> snd y = Suc k))"
  using assms
proof (induction rnd gen uid i y rule: generate_loop.raw_induct [rotated 1, consumes 1, case_names step])
  case (step loop rnd gen uid i y)
  show ?case
  proof (cases "uid = None \<or> uid = Some [] \<or> JString (the uid) \<in> set gen")
    case True
    with step(2) have "loop rnd gen (Some (formatUid (rnd i))) (Suc i) = Some y" by simp
    from step(1) [OF this] show ?thesis by (auto simp: formatUid_nonempty)
  next
    case False
    with step(2) show ?thesis by auto
  qed
qed

lemma generate_loop_returns:
  assumes "JString (formatUid (rnd (i + n))) \<notin> set gen"
  shows "\<exists>k\<le>n. generate_loop rnd gen (Some (formatUid (rnd i))) (Suc i) = Some (formatUid (rnd (i + k)), Suc (i + k))"
  using assms
proof (induction n arbitrary: i)
  case 0
  then show ?case by (subst generate_loop.simps) (simp add: formatUid_nonempty)
next
  case (Suc n)
  show ?case
  proof (cases "JString (formatUid (rnd i)) \<in> set gen")
    case False
    then have "generate_loop rnd gen (Some (formatUid (rnd i))) (Suc i) = Some (formatUid (rnd (i + 0)), Suc (i + 0))"
      by (subst generate_loop.simps) (simp add: formatUid_nonempty)
    then show ?thesis by blast
  next
    case True
    from Suc.prems have "JString (formatUid (rnd (Suc i + n))) \<notin> set gen" by simp
    from Suc.IH [OF this] obtain k where k: "k \<le> n"
      "generate_loop rnd gen (Some (formatUid (rnd (Suc i)))) (Suc (Suc i)) = Some (formatUid (rnd (Suc i + k)), Suc (Suc i + k))"
      by blast
    from True have "generate_loop rnd gen (Some (formatUid (rnd i))) (Suc i)
        = generate_loop rnd gen (Some (formatUid (rnd (Suc i)))) (Suc (Suc i))"
      by (subst generate_loop.simps) simp
    with k have "generate_loop rnd gen (Some (formatUid (rnd i))) (Suc i) = Some (formatUid (rnd (i + Suc k)), Suc (i + Suc k))"
      by simp
    moreover from k(1) have "Suc k \<le> Suc n" by simp
    ultimately show ?thesis by blast
  qed
qed

lemma generate_loop_None: "generate_loop rnd gen None i = generate_loop rnd gen (Some (formatUid (rnd i))) (Suc i)"
  by (subst generate_loop.simps) simp

lemma generate_sound:
  assumes "generate rnd g = Some (uid, g')"
  shows "JString uid \<notin> set (generated g)" "generated g' = generated g @ [JString uid]"
    "\<exists>k\<ge>draws g. uid = formatUid (rnd k) \<and> draws g' = Suc k"
proof -
  from assms obtain i where l: "generate_loop rnd (generated g) None (draws g) = Some (uid, i)"
    and g': "g' = \<lparr>generated = generated g @ [JString uid], draws = i\<rparr>"
    by (auto simp: generate_def split: option.splits)
  from generate_loop_sound [OF l] g'
  show "JString uid \<notin> set (generated g)" "generated g' = generated g @ [JString uid]"
    "\<exists>k\<ge>draws g. uid = formatUid (rnd k) \<and> draws g' = Suc k"
    by auto
qed

lemma generate_returns:
  assumes "JString (formatUid (rnd (draws g + n))) \<notin> set (generated g)"
  shows "\<exists>uid g'. generate rnd g = Some (uid, g')"
  using generate_loop_returns [of rnd "draws g" n "generated g", OF assms]
  by (auto simp: generate_def generate_loop_None)

lemma generate_first:
  assumes "JString (formatUid (rnd (draws g))) \<notin> set (generated g)"
  shows "generate rnd g = Some (formatUid (rnd (draws g)),
     \<lparr>generated = generated g @ [JString (formatUid (rnd (draws g)))], draws = Suc (draws g)\<rparr>)"
  using generate_loop_returns [of rnd "draws g" 0 "generated g"] assms
  by (simp add: generate_def generate_loop_None)

lemma generate_valid: "generate rnd g = Some (uid, g') \<Longrightarrow> re_test (JString uid)"
  using generate_sound(3) formatUid_valid by blast

lemma rnd0_0: "formatUid (rnd0 0) = uid_0"
  by (simp add: rnd0_def formatUid_shape lookup_at_byte hexchar_def)

lemma rnd0_1: "formatUid (rnd0 (Suc 0)) = uid_1"
  by (simp add: rnd0_def formatUid_shape lookup_at_byte hexchar_def)

lemma v4_format_uid_A: "v4_format uid_A"
  by (simp add: v4_format_def upt36)

lemma v4_format_uid_a: "v4_format uid_a"
  by (simp add: v4_format_def upt36)

lemma not_v4_format_short: "length s \<noteq> 36 \<Longrightarrow> \<not> v4_format s"
  by (simp add: v4_format_def)

lemma length_filter_eq_iff: "length (filter P xs) = length xs \<longleftrightarrow> list_all P xs"
proof (induction xs)
  case Nil
  then show ?case by simp
next
  case (Cons x xs)
  have "length (filter P xs) \<le> length xs" by (rule length_filter_le)
  then have "length (filter P xs) \<noteq> Suc (length xs)" by linarith
  with Cons show ?case by simp
qed

text \<open>
  C5: every string returned by \<open>generate()\<close> is lowercase and in the v4 format: five
  groups of hexadecimal digits separated by hyphens, of lengths 8, 4, 4, 4 and 12, the
  third starting with \<open>4\<close> and the fourth with one of \<open>8\<close>, \<open>9\<close>, \<open>a\<close>,
  \<open>b\<close>. This holds of whatever \<open>formatUid\<close> builds from any four 32-bit values,
  hence of every result of \<open>generate\<close>, which the validator accepts as well.
\<close>

theorem generate_emits_v4_lowercase:
  "v4_lower_groups (formatUid vals)
   \<and> (generate rnd g = Some (uid, g') \<longrightarrow> v4_lower_groups uid \<and> re_test (JString uid))"
proof -
  have "v4_lower_groups uid \<and> re_test (JString uid)" if "generate rnd g = Some (uid, g')"
  proof -
    from generate_sound(3) [OF that] obtain k where "uid = formatUid (rnd k)" by blast
    then show ?thesis by (simp add: formatUid_groups formatUid_valid)
  qed
  then show ?thesis by (simp add: formatUid_groups)
qed

theorem generate_emits_v4_lowercase_witness:
  "generate rnd0 (KDUID None)
     = Some (uid_0, \<lparr>generated = [JString uid_0], draws = 1\<rparr>)
   \<and> v4_lower_groups uid_0 \<and> re_test (JString uid_0)"
proof -
  have g: "generate rnd0 (KDUID None) = Some (uid_0, \<lparr>generated = [JString uid_0], draws = 1\<rparr>)"
    by (simp add: generate_first KDUID_def rnd0_0)
  with generate_emits_v4_lowercase [of "rnd0 0" rnd0 "KDUID None" uid_0 "\<lparr>generated = [JString uid_0], draws = 1\<rparr>"]
  show ?thesis by simp
qed

text \<open>
  C6: \<open>validate\<close> returns exactly the inputs that match the regular expression, in
  their order and with repetitions kept, for an array as for a single value; a single
  matching string gives the one-element list of that string, a single string that does not
  match gives the empty list. On strings the regular expression is the 36-character
  format \<open>xxxxxxxx-xxxx-4xxx-yxxx-xxxxxxxxxxxx\<close> read without regard to case.
\<close>

theorem validate_is_filter:
  "validator (Array us) = filter re_test us
   \<and> validator (Single u) = (if re_test u then [u] else [])
   \<and> re_test (JString s) = v4_format s"
  by (simp add: validator_def re_test_v4_format)

theorem validate_is_filter_witness:
  "validator (Array [JString ''invalid-uid'', JString uid_A, JString uid_a, JString uid_A])
     = [JString uid_A, JString uid_a, JString uid_A]
   \<and> validator (Single (JString uid_A)) = [JString uid_A]
   \<and> validator (Single (JString ''invalid-uid'')) = []"
  using validate_is_filter [of "[JString ''invalid-uid'', JString uid_A, JString uid_a, JString uid_A]" "JString uid_A" "''invalid-uid''"]
    validate_is_filter [of "[]" "JString ''invalid-uid''" uid_A]
    validate_is_filter [of "[]" "JString uid_a" uid_a]
  by (simp add: v4_format_uid_A v4_format_uid_a not_v4_format_short)

lemma setExisting_cases:
  "setExisting g uuids
     = (if list_all re_test uuids then (g\<lparr>generated := uuids\<rparr>, True) else (g, False))"
  by (simp add: setExisting_def validator_def length_filter_eq_iff)

text \<open>
  C7: \<open>setExisting\<close> returns \<open>true\<close> and replaces the stored list by the candidates
  as given, repetitions included, exactly when every candidate passes validation; otherwise
  it returns \<open>false\<close> and the generator is unchanged.
\<close>

theorem setExisting_all_or_nothing:
  "setExisting g uuids
     = (if list_all re_test uuids then (g\<lparr>generated := uuids\<rparr>, True) else (g, False))"
  by (rule setExisting_cases)

theorem setExisting_all_or_nothing_witness:
  "setExisting \<lparr>generated = [JString uid_0], draws = 1\<rparr> [JString uid_A, JString uid_A]
     = (\<lparr>generated = [JString uid_A, JString uid_A], draws = 1\<rparr>, True)
   \<and> setExisting \<lparr>generated = [JString uid_0], draws = 1\<rparr> [JString uid_A, JString ''invalid-uid'']
     = (\<lparr>generated = [JString uid_0], draws = 1\<rparr>, False)"
  using setExisting_all_or_nothing [of "\<lparr>generated = [JString uid_0], draws = 1\<rparr>" "[JString uid_A, JString uid_A]"]
    setExisting_all_or_nothing [of "\<lparr>generated = [JString uid_0], draws = 1\<rparr>" "[JString uid_A, JString ''invalid-uid'']"]
  by (simp add: re_test_v4_format v4_format_uid_A not_v4_format_short)

section \<open>The manager: lookups, deletion and resynchronization\<close>

lemma hasKeyFor_loop_iff: "hasKeyFor_loop vs uid = (uid \<in> set vs)"
  by (induction vs) auto

lemma getKeyFor_loop_None_iff: "(getKeyFor_loop es uid = None) = (uid \<notin> set (map snd es))"
  by (induction es uid rule: getKeyFor_loop.induct) auto

lemma getKeyFor_loop_Some: "getKeyFor_loop es uid = Some k \<Longrightarrow> (k, uid) \<in> set es"
  by (induction es uid rule: getKeyFor_loop.induct) (auto split: if_splits)

lemma deleteEntryForUID_loop_absent:
  "uid \<notin> set (map snd es) \<Longrightarrow> deleteEntryForUID_loop s es uid = (s, False)"
  by (induction s es uid rule: deleteEntryForUID_loop.induct) auto

lemma deleteEntryForUID_loop_present:
  "uid \<in> set (map snd es) \<Longrightarrow>
     \<exists>key. (key, uid) \<in> set es \<and> deleteEntryForUID_loop s es uid
       = (fst (updateGenerator (s\<lparr>map_tbl := map_delete key (map_tbl s)\<rparr>)), True)"
  by (induction s es uid rule: deleteEntryForUID_loop.induct) auto

lemma updateGenerator_map: "map_tbl (fst (updateGenerator s)) = map_tbl s"
  by (simp add: updateGenerator_def setExisting_cases Let_def)

lemma updateGenerator_valid:
  "list_all re_test (map snd (map_tbl s)) \<Longrightarrow>
     updateGenerator s = (s\<lparr>generator := (generator s)\<lparr>generated := map snd (map_tbl s)\<rparr>\<rparr>, True)"
  by (simp add: updateGenerator_def setExisting_cases)

lemma updateGenerator_invalid:
  "\<not> list_all re_test (map snd (map_tbl s)) \<Longrightarrow> updateGenerator s = (s, False)"
  by (simp add: updateGenerator_def setExisting_cases)

lemma updateGenerator_synced:
  "list_all re_test (uids (fst (updateGenerator s))) \<Longrightarrow>
     generated (generator (fst (updateGenerator s))) = uids (fst (updateGenerator s))"
  by (cases "list_all re_test (map snd (map_tbl s))")
     (simp_all add: updateGenerator_valid updateGenerator_invalid uids_def)

lemma map_has_delete: "\<not> map_has k (map_delete k m)"
  by (auto simp: map_has_def map_delete_def)

lemma map_delete_absent: "\<not> map_has k m \<Longrightarrow> map_delete k m = m"
  by (induction m) (auto simp: map_has_def map_delete_def)

lemma generateUIDFor_result:
  assumes "generateUIDFor rnd s k = Some (u, s')"
  shows "generate rnd (generator s) = Some (u, generator s')"
    and "map_tbl s' = map_delete k (map_tbl s) @ [(k, JString u)]"
proof -
  from assms obtain g where g: "generate rnd (generator s) = Some (u, g)"
    and s': "s' = \<lparr>generator = g, map_tbl = map_set k (JString u)
        (if map_has k (map_tbl s) then map_delete k (map_tbl s) else map_tbl s)\<rparr>"
    by (auto simp: generateUIDFor_def Let_def split: option.splits)
  from g s' show "generate rnd (generator s) = Some (u, generator s')" by simp
  have "(if map_has k (map_tbl s) then map_delete k (map_tbl s) else map_tbl s)
      = map_delete k (map_tbl s)"
    by (simp add: map_delete_absent)
  with s' show "map_tbl s' = map_delete k (map_tbl s) @ [(k, JString u)]"
    by (simp add: map_set_def map_has_delete)
qed

lemma generateUIDFor_returns:
  assumes "generate rnd (generator s) = Some (u, g)"
  shows "\<exists>s'. generateUIDFor rnd s k = Some (u, s')"
  using assms by (simp add: generateUIDFor_def Let_def)

lemma map_of_delete_append: "map_of (map_delete k m @ [(k, v)]) k = Some v"
proof -
  have "map_of (map_delete k m) k = None"
    by (induction m) (auto simp: map_delete_def)
  then show ?thesis by (simp add: map_add_def)
qed

lemma distinct_values_key:
  assumes "distinct (map snd m)" "(k, v) \<in> set m" "(k', v) \<in> set m"
  shows "k = k'"
proof -
  from assms(1) have "inj_on snd (set m)" by (simp add: distinct_map)
  from inj_onD [OF this _ assms(2,3)] show ?thesis by simp
qed

lemma map_get_in_set: "map_has k m \<Longrightarrow> (k, map_get k m) \<in> set m"
proof -
  assume "map_has k m"
  then obtain v where "map_of m k = Some v"
    by (auto simp: map_has_def dest: weak_map_of_SomeI)
  then show ?thesis by (auto simp: map_get_def dest: map_of_SomeD)
qed

lemma forEach_invalid_unchanged:
  "setEntries_forEach rnd (s, c, i) es = Some (Inr (s', c', i')) \<Longrightarrow> i' = i"
proof (induction es arbitrary: s c)
  case Nil
  then show ?case by simp
next
  case (Cons e es)
  then show ?case
    by (auto simp: setEntries_each_def handleValid_def js_not_array_def Let_def
        split: option.splits sum.splits entry_arg.splits if_splits)
qed



section \<open>Evaluating the model on the example inputs\<close>

lemma uid_0_valid: "re_test (JString uid_0)"
  using formatUid_valid [of "rnd0 0"] by (simp only: rnd0_0)

lemma uid_1_valid: "re_test (JString uid_1)"
  using formatUid_valid [of "rnd0 (Suc 0)"] by (simp only: rnd0_1)

lemma uid_A_valid: "re_test (JString uid_A)"
  by (simp only: re_test_v4_format v4_format_uid_A)

lemma uid_a_valid: "re_test (JString uid_a)"
  by (simp only: re_test_v4_format v4_format_uid_a)

lemma undefined_invalid: "\<not> re_test JUndefined"
  by (simp add: re_test_def re_explicit)

lemma not_a_uid_invalid: "\<not> re_test (JString ''not-a-uid'')"
  by (simp add: re_test_v4_format not_v4_format_short)

lemmas eval_defs = setEntries_def setEntries_try_def setEntries_each_def handleValid_def
  js_not_array_def validator_def uids_def map_set_def map_has_def map_delete_def
  KDUIDManager_def KDUID_def updateGenerator_def setExisting_def generateUIDFor_def
  generate_first rnd0_0 rnd0_1 uid_0_valid uid_1_valid uid_A_valid uid_a_valid
  undefined_invalid not_a_uid_invalid

lemma ex_bad: "setEntries rnd0 (KDUIDManager ()) (EntriesArray [Entry (0::nat) (JString ''not-a-uid'')])
   = Some (\<lparr>generator = \<lparr>generated = [], draws = 0\<rparr>, map_tbl = [(0, JString ''not-a-uid'')]\<rparr>,
           Return (Report [] []))"
  by (simp add: eval_defs)

lemma ex_key_only: "setEntries rnd0 (KDUIDManager ()) (EntriesArray [Entry (0::nat) JUndefined])
   = Some (\<lparr>generator = \<lparr>generated = [], draws = 0\<rparr>, map_tbl = [(0, JUndefined)]\<rparr>,
           Return (Report [] []))"
  by (simp add: eval_defs)

lemma ex_dup: "setEntries rnd0 (KDUIDManager ())
     (EntriesArray [Entry (0::nat) (JString uid_A), Entry 1 (JString uid_0), Entry 2 (JString uid_A)]) =
   Some (\<lparr>generator = \<lparr>generated = [JString uid_A, JString uid_0, JString uid_0], draws = 1\<rparr>,
          map_tbl = [(0, JString uid_A), (1, JString uid_0), (2, JString uid_0)]\<rparr>,
         Return (Report [(2, uid_0)] []))"
  by (simp add: eval_defs)

lemma ex_gen2: "generateUIDFor rnd0 \<lparr>generator = \<lparr>generated = [JString uid_A, JString uid_0, JString uid_0], draws = 1\<rparr>,
          map_tbl = [(0::nat, JString uid_A), (1, JString uid_0), (2, JString uid_0)]\<rparr> 1
   = Some (uid_1, \<lparr>generator = \<lparr>generated = [JString uid_A, JString uid_0, JString uid_0, JString uid_1], draws = 2\<rparr>,
          map_tbl = [(0::nat, JString uid_A), (2, JString uid_0), (1, JString uid_1)]\<rparr>)"
  by (simp add: eval_defs)

lemma toLowerCase_uid_A: "toLowerCase uid_A = uid_a"
  by (simp add: toLowerCase_def to_lower_def)

lemma cls_to_lower:
  "cls_hex (to_lower c) = cls_hex c" "cls_dash (to_lower c) = cls_dash c"
  "cls_four (to_lower c) = cls_four c" "cls_variant (to_lower c) = cls_variant c"
  by (auto simp: to_lower_def cls_hex_def cls_dash_def cls_four_def cls_variant_def
      split: option.splits if_splits)

lemma re_test_toLowerCase: "re_test (JString (toLowerCase s)) = re_test (JString s)"
proof -
  have "list_all2 (\<lambda>cls c. cls c) re (map to_lower s) = list_all2 (\<lambda>cls c. cls (to_lower c)) re s"
    by (simp add: list_all2_map2)
  also have "\<dots> = list_all2 (\<lambda>cls c. cls c) re s"
    by (rule list.rel_cong) (auto simp: re_explicit cls_to_lower)
  finally show ?thesis by (simp add: re_test_def toLowerCase_def)
qed

lemma rnd_same_uid: "formatUid (rnd_same i) = uid_0"
  by (simp add: rnd_same_def formatUid_shape lookup_at_byte hexchar_def)

section \<open>Lookups by identifier\<close>

lemma deleteEntryForUID_absent:
  "uid \<notin> set (uids s) \<Longrightarrow> deleteEntryForUID s uid = (s, False)"
  by (simp add: deleteEntryForUID_def uids_def deleteEntryForUID_loop_absent Let_def)

lemma deleteEntryForUID_present:
  assumes "uid \<in> set (uids s)"
  shows "\<exists>key. (key, uid) \<in> set (map_tbl s) \<and> deleteEntryForUID s uid
       = (fst (updateGenerator (s\<lparr>map_tbl := map_delete key (map_tbl s)\<rparr>)), True)"
proof -
  from assms have "map_tbl s \<noteq> []" by (auto simp: uids_def)
  with deleteEntryForUID_loop_present [of uid "map_tbl s" s] assms
  show ?thesis by (simp add: deleteEntryForUID_def uids_def Let_def)
qed

text \<open>
  C10: \<open>hasKeyFor\<close>, \<open>getKeyFor\<close> and \<open>deleteEntryForUID\<close> compare the
  identifier they are given with the stored values by exact equality of strings, so case
  matters: an identifier stored in uppercase, which validation accepts together with
  its lowercase form, is reported absent when it is asked for in lowercase, and an
  identifier stored in lowercase is absent when asked for in uppercase.
\<close>
theorem lookup_by_uid_is_case_sensitive:
  "hasKeyFor s u = (u \<in> set (uids s))
   \<and> (getKeyFor s u = None) = (u \<notin> set (uids s))
   \<and> (getKeyFor s u = Some k \<longrightarrow> (k, u) \<in> set (entries s))
   \<and> snd (deleteEntryForUID s u) = (u \<in> set (uids s))
   \<and> (u \<notin> set (uids s) \<longrightarrow> deleteEntryForUID s u = (s, False))
   \<and> (JString U \<in> set (uids s) \<and> re_test (JString U) \<and> JString (toLowerCase U) \<notin> set (uids s)
        \<longrightarrow> re_test (JString (toLowerCase U))
          \<and> \<not> hasKeyFor s (JString (toLowerCase U))
          \<and> getKeyFor s (JString (toLowerCase U)) = None
          \<and> deleteEntryForUID s (JString (toLowerCase U)) = (s, False))
   \<and> (JString (toLowerCase U) \<in> set (uids s) \<and> JString U \<notin> set (uids s)
        \<longrightarrow> \<not> hasKeyFor s (JString U)
          \<and> getKeyFor s (JString U) = None
          \<and> deleteEntryForUID s (JString U) = (s, False))"
proof -
  have has: "hasKeyFor s v = (v \<in> set (uids s))" for v
    by (simp add: hasKeyFor_def uids_def hasKeyFor_loop_iff)
  have get: "(getKeyFor s v = None) = (v \<notin> set (uids s))" for v
    by (simp only: getKeyFor_def uids_def getKeyFor_loop_None_iff)
  have some: "getKeyFor s u = Some k \<longrightarrow> (k, u) \<in> set (entries s)"
    by (auto simp: getKeyFor_def entries_def dest: getKeyFor_loop_Some)
  have del: "snd (deleteEntryForUID s u) = (u \<in> set (uids s))"
  proof (cases "u \<in> set (uids s)")
    case True
    with deleteEntryForUID_present [OF True] show ?thesis by auto
  next
    case False
    then show ?thesis by (simp add: deleteEntryForUID_absent)
  qed
  show ?thesis
    using has get some del by (simp add: deleteEntryForUID_absent re_test_toLowerCase)
qed

text \<open>
  The instance: the identifier of the test suite, stored in uppercase through
  \<open>setEntries\<close>, is found under its uppercase form and absent under its lowercase form.
\<close>

theorem lookup_by_uid_is_case_sensitive_witness:
  "setEntries rnd0 (KDUIDManager ()) (EntriesArray [Entry (0::nat) (JString uid_A)])
     = Some (\<lparr>generator = \<lparr>generated = [JString uid_A], draws = 0\<rparr>,
              map_tbl = [(0, JString uid_A)]\<rparr>, Return (Report [] []))
   \<and> JString uid_A \<in> set (uids \<lparr>generator = \<lparr>generated = [JString uid_A], draws = 0\<rparr>,
              map_tbl = [(0::nat, JString uid_A)]\<rparr>)
   \<and> re_test (JString uid_A)
   \<and> JString uid_a \<notin> set (uids \<lparr>generator = \<lparr>generated = [JString uid_A], draws = 0\<rparr>,
              map_tbl = [(0::nat, JString uid_A)]\<rparr>)
   \<and> hasKeyFor \<lparr>generator = \<lparr>generated = [JString uid_A], draws = 0\<rparr>,
              map_tbl = [(0::nat, JString uid_A)]\<rparr> (JString uid_A)
   \<and> getKeyFor \<lparr>generator = \<lparr>generated = [JString uid_A], draws = 0\<rparr>,
              map_tbl = [(0::nat, JString uid_A)]\<rparr> (JString uid_A) = Some 0
   \<and> \<not> hasKeyFor \<lparr>generator = \<lparr>generated = [JString uid_A], draws = 0\<rparr>,
              map_tbl = [(0::nat, JString uid_A)]\<rparr> (JString uid_a)
   \<and> getKeyFor \<lparr>generator = \<lparr>generated = [JString uid_A], draws = 0\<rparr>,
              map_tbl = [(0::nat, JString uid_A)]\<rparr> (JString uid_a) = None
   \<and> deleteEntryForUID \<lparr>generator = \<lparr>generated = [JString uid_A], draws = 0\<rparr>,
              map_tbl = [(0::nat, JString uid_A)]\<rparr> (JString uid_a)
       = (\<lparr>generator = \<lparr>generated = [JString uid_A], draws = 0\<rparr>,
              map_tbl = [(0::nat, JString uid_A)]\<rparr>, False)
   \<and> \<not> hasKeyFor \<lparr>generator = \<lparr>generated = [JString uid_a], draws = 0\<rparr>,
              map_tbl = [(0::nat, JString uid_a)]\<rparr> (JString uid_A)"
proof -
  let ?s = "\<lparr>generator = \<lparr>generated = [JString uid_A], draws = 0\<rparr>,
              map_tbl = [(0::nat, JString uid_A)]\<rparr>"
  let ?t = "\<lparr>generator = \<lparr>generated = [JString uid_a], draws = 0\<rparr>,
              map_tbl = [(0::nat, JString uid_a)]\<rparr>"
  have e: "setEntries rnd0 (KDUIDManager ()) (EntriesArray [Entry (0::nat) (JString uid_A)])
     = Some (?s, Return (Report [] []))"
    by (simp add: eval_defs)
  have h: "JString uid_A \<in> set (uids ?s)" "re_test (JString uid_A)"
    "JString uid_a \<notin> set (uids ?s)"
    "JString (toLowerCase uid_A) \<in> set (uids ?t)" "JString uid_A \<notin> set (uids ?t)"
    by (simp_all add: uids_def uid_A_valid toLowerCase_uid_A)
  have g: "getKeyFor ?s (JString uid_A) = Some 0"
    by (simp add: getKeyFor_def)
  from e h g
    lookup_by_uid_is_case_sensitive [of ?s "JString uid_A" 0 uid_A]
    lookup_by_uid_is_case_sensitive [of ?t "JString uid_a" 0 uid_A]
  show ?thesis by (simp add: toLowerCase_uid_A)
qed

section \<open>setEntries\<close>

lemma setEntries_invalid_always_empty:
  assumes "setEntries rnd s (EntriesArray es) = Some (s', Return (Report changed invalid))"
  shows "invalid = []"
proof -
  from assms obtain s1 where
    "setEntries_forEach rnd (s\<lparr>map_tbl := []\<rparr>, [], []) es = Some (Inr (s1, changed, invalid))"
    by (auto simp: setEntries_def setEntries_try_def
        split: option.splits sum.splits completion.splits prod.splits)
  then show ?thesis by (rule forEach_invalid_unchanged)
qed

text \<open>
  C1, at the input \<open>[[0, "not-a-uid"]]\<close> on a new manager: the claim has a pair whose
  identifier fails validation recorded in \<open>invalid\<close> and not inserted. The validator
  rejects the string, yet \<open>setEntries\<close> stores it and returns a report whose
  \<open>invalid\<close> is empty: \<open>!isValidUID\<close> negates an array, which is never falsy.
  By \<open>setEntries_invalid_always_empty\<close> no report ever has a non-empty \<open>invalid\<close>.
\<close>
theorem setEntries_inserts_invalid_identifier:
  "validator (Single (JString ''not-a-uid'')) = []
   \<and> setEntries rnd0 (KDUIDManager ()) (EntriesArray [Entry (0::nat) (JString ''not-a-uid'')])
     = Some (\<lparr>generator = \<lparr>generated = [], draws = 0\<rparr>,
              map_tbl = [(0, JString ''not-a-uid'')]\<rparr>,
             Return (Report [] []))"
  by (simp add: eval_defs)

text \<open>
  C2, at two inputs on a new manager: the claim has every stored value a valid
  identifier and the stored values pairwise distinct. After
  \<open>setEntries([[0, "not-a-uid"]])\<close> the map holds a value that fails validation. After
  \<open>setEntries\<close> on three pairs of which the third repeats the identifier of the
  first, with a random source whose first draw formats to the identifier of the second
  pair, the replacement coincides with a stored value: the generator checks its own list,
  which during \<open>setEntries\<close> does not yet hold the values just inserted.
\<close>
theorem stored_values_invalid_or_repeated:
  "setEntries rnd0 (KDUIDManager ()) (EntriesArray [Entry (0::nat) (JString ''not-a-uid'')])
     = Some (\<lparr>generator = \<lparr>generated = [], draws = 0\<rparr>,
              map_tbl = [(0, JString ''not-a-uid'')]\<rparr>,
             Return (Report [] []))
   \<and> \<not> list_all re_test (uids \<lparr>generator = \<lparr>generated = [], draws = 0\<rparr>,
              map_tbl = [(0::nat, JString ''not-a-uid'')]\<rparr>)
   \<and> setEntries rnd0 (KDUIDManager ())
       (EntriesArray [Entry (0::nat) (JString uid_A), Entry 1 (JString uid_0), Entry 2 (JString uid_A)])
     = Some (\<lparr>generator = \<lparr>generated = [JString uid_A, JString uid_0, JString uid_0], draws = 1\<rparr>,
              map_tbl = [(0, JString uid_A), (1, JString uid_0), (2, JString uid_0)]\<rparr>,
             Return (Report [(2, uid_0)] []))
   \<and> \<not> distinct (uids \<lparr>generator = \<lparr>generated = [JString uid_A, JString uid_0, JString uid_0], draws = 1\<rparr>,
              map_tbl = [(0::nat, JString uid_A), (1, JString uid_0), (2, JString uid_0)]\<rparr>)"
  by (simp add: eval_defs)







section \<open>The seen-set and the map\<close>

lemma deleteEntryForKey_synced:
  assumes "deleteEntryForKey s k = (s', True)" "list_all re_test (uids s')"
  shows "generated (generator s') = uids s'"
proof -
  from assms(1) have "s' = fst (updateGenerator (s\<lparr>map_tbl := map_delete k (map_tbl s)\<rparr>))"
    by (auto simp: deleteEntryForKey_def split: if_splits)
  with assms(2) show ?thesis by (simp only: updateGenerator_synced)
qed

lemma deleteEntryForUID_synced:
  assumes "deleteEntryForUID s u = (s', True)" "list_all re_test (uids s')"
  shows "generated (generator s') = uids s'"
proof -
  have "u \<in> set (uids s)"
    using assms(1) deleteEntryForUID_absent [of u s] by auto
  from deleteEntryForUID_present [OF this] assms(1)
  obtain key where "s' = fst (updateGenerator (s\<lparr>map_tbl := map_delete key (map_tbl s)\<rparr>))"
    by auto
  with assms(2) show ?thesis by (simp only: updateGenerator_synced)
qed

lemma setEntries_synced:
  assumes "setEntries rnd s (EntriesArray es) = Some (s', Return (Report changed invalid))"
    "list_all re_test (uids s')"
  shows "generated (generator s') = uids s'"
proof -
  from assms(1) obtain s1 where "s' = fst (updateGenerator s1)"
    by (auto simp: setEntries_def setEntries_try_def
        split: option.splits sum.splits completion.splits prod.splits)
  with assms(2) show ?thesis by (simp only: updateGenerator_synced)
qed

lemma reset_synced: "generated (generator (reset s)) = uids (reset s) \<and> uids (reset s) = []"
  by (simp add: reset_def updateGenerator_valid uids_def)

lemma generateUIDFor_seen:
  assumes "generateUIDFor rnd s k = Some (uid, s')"
  shows "generated (generator s') = generated (generator s) @ [JString uid]"
    and "uids s' = map snd (map_delete k (map_tbl s)) @ [JString uid]"
    and "JString uid \<notin> set (generated (generator s))"
  using generateUIDFor_result [OF assms] generate_sound [of rnd "generator s" uid "generator s'"]
  by (simp_all add: uids_def)

text \<open>
  C3 as stated fails for \<open>generateUIDFor\<close> on an entity that already has an
  identifier: on a new manager, two calls for the same entity leave both identifiers in
  the generator's list, while the map holds the second only.
\<close>
theorem seen_set_keeps_replaced_identifier:
  "generateUIDFor rnd0 (KDUIDManager ()) (0::nat)
     = Some (uid_0, \<lparr>generator = \<lparr>generated = [JString uid_0], draws = 1\<rparr>,
                     map_tbl = [(0, JString uid_0)]\<rparr>)
   \<and> generateUIDFor rnd0 \<lparr>generator = \<lparr>generated = [JString uid_0], draws = 1\<rparr>,
                     map_tbl = [(0::nat, JString uid_0)]\<rparr> 0
     = Some (uid_1, \<lparr>generator = \<lparr>generated = [JString uid_0, JString uid_1], draws = 2\<rparr>,
                     map_tbl = [(0, JString uid_1)]\<rparr>)
   \<and> generated (generator \<lparr>generator = \<lparr>generated = [JString uid_0, JString uid_1], draws = 2\<rparr>,
                     map_tbl = [(0::nat, JString uid_1)]\<rparr>)
     \<noteq> uids \<lparr>generator = \<lparr>generated = [JString uid_0, JString uid_1], draws = 2\<rparr>,
                     map_tbl = [(0::nat, JString uid_1)]\<rparr>"
  by (simp add: eval_defs)

text \<open>
  C3, amended: after \<open>reset\<close>, and after a \<open>deleteEntryForKey\<close> or
  \<open>deleteEntryForUID\<close> that returns \<open>true\<close> or a \<open>setEntries\<close> that returns a
  report, the generator's list equals the list of the map's values, provided every value
  then stored is a valid identifier. After \<open>generateUIDFor\<close> the generator's list is
  the list before the call with the new identifier appended: an identifier that was
  replaced stays in it.
\<close>
theorem seen_set_after_structural_change:
  "generated (generator (reset s)) = uids (reset s)
   \<and> (deleteEntryForKey s k = (s', True) \<and> list_all re_test (uids s')
        \<longrightarrow> generated (generator s') = uids s')
   \<and> (deleteEntryForUID s u = (s', True) \<and> list_all re_test (uids s')
        \<longrightarrow> generated (generator s') = uids s')
   \<and> (setEntries rnd s (EntriesArray es) = Some (s', Return (Report changed invalid))
        \<and> list_all re_test (uids s')
        \<longrightarrow> generated (generator s') = uids s')
   \<and> (generateUIDFor rnd s k = Some (uid, s')
        \<longrightarrow> generated (generator s') = generated (generator s) @ [JString uid]
          \<and> uids s' = map snd (map_delete k (map_tbl s)) @ [JString uid])"
proof (intro conjI impI)
  show "generated (generator (reset s)) = uids (reset s)"
    by (simp add: reset_synced)
  show "generated (generator s') = uids s'"
    if "deleteEntryForKey s k = (s', True) \<and> list_all re_test (uids s')"
    using that by (auto intro: deleteEntryForKey_synced)
  show "generated (generator s') = uids s'"
    if "deleteEntryForUID s u = (s', True) \<and> list_all re_test (uids s')"
    using that by (auto intro: deleteEntryForUID_synced)
  show "generated (generator s') = uids s'"
    if "setEntries rnd s (EntriesArray es) = Some (s', Return (Report changed invalid))
        \<and> list_all re_test (uids s')"
    using that by (auto intro: setEntries_synced)
  show "generated (generator s') = generated (generator s) @ [JString uid]"
    if "generateUIDFor rnd s k = Some (uid, s')"
    using that by (rule generateUIDFor_seen(1))
  show "uids s' = map snd (map_delete k (map_tbl s)) @ [JString uid]"
    if "generateUIDFor rnd s k = Some (uid, s')"
    using that by (rule generateUIDFor_seen(2))
qed

theorem seen_set_after_structural_change_witness:
  "generated (generator (reset \<lparr>generator = \<lparr>generated = [JString uid_0, JString uid_1], draws = 2\<rparr>,
        map_tbl = [(0::nat, JString uid_0), (1, JString uid_1)]\<rparr>)) = []
   \<and> deleteEntryForKey \<lparr>generator = \<lparr>generated = [JString uid_0, JString uid_1], draws = 2\<rparr>,
        map_tbl = [(0::nat, JString uid_0), (1, JString uid_1)]\<rparr> 0
     = (\<lparr>generator = \<lparr>generated = [JString uid_1], draws = 2\<rparr>,
        map_tbl = [(1, JString uid_1)]\<rparr>, True)
   \<and> deleteEntryForUID \<lparr>generator = \<lparr>generated = [JString uid_0, JString uid_1], draws = 2\<rparr>,
        map_tbl = [(0::nat, JString uid_0), (1, JString uid_1)]\<rparr> (JString uid_0)
     = (\<lparr>generator = \<lparr>generated = [JString uid_1], draws = 2\<rparr>,
        map_tbl = [(1, JString uid_1)]\<rparr>, True)
   \<and> list_all re_test (uids \<lparr>generator = \<lparr>generated = [JString uid_1], draws = 2\<rparr>,
        map_tbl = [(1::nat, JString uid_1)]\<rparr>)
   \<and> setEntries rnd0 (KDUIDManager ()) (EntriesArray [Entry (0::nat) (JString uid_A)])
     = Some (\<lparr>generator = \<lparr>generated = [JString uid_A], draws = 0\<rparr>,
              map_tbl = [(0, JString uid_A)]\<rparr>, Return (Report [] []))
   \<and> list_all re_test (uids \<lparr>generator = \<lparr>generated = [JString uid_A], draws = 0\<rparr>,
              map_tbl = [(0::nat, JString uid_A)]\<rparr>)
   \<and> generateUIDFor rnd0 \<lparr>generator = \<lparr>generated = [JString uid_0], draws = 1\<rparr>,
                     map_tbl = [(0::nat, JString uid_0)]\<rparr> 0
     = Some (uid_1, \<lparr>generator = \<lparr>generated = [JString uid_0, JString uid_1], draws = 2\<rparr>,
                     map_tbl = [(0, JString uid_1)]\<rparr>)
   \<and> generated (generator \<lparr>generator = \<lparr>generated = [JString uid_0, JString uid_1], draws = 2\<rparr>,
                     map_tbl = [(0::nat, JString uid_1)]\<rparr>)
     = generated (generator \<lparr>generator = \<lparr>generated = [JString uid_0], draws = 1\<rparr>,
                     map_tbl = [(0::nat, JString uid_0)]\<rparr>) @ [JString uid_1]"
proof -
  let ?s = "\<lparr>generator = \<lparr>generated = [JString uid_0, JString uid_1], draws = 2\<rparr>,
        map_tbl = [(0::nat, JString uid_0), (1, JString uid_1)]\<rparr>"
  let ?d = "\<lparr>generator = \<lparr>generated = [JString uid_1], draws = 2\<rparr>,
        map_tbl = [(1::nat, JString uid_1)]\<rparr>"
  let ?t = "\<lparr>generator = \<lparr>generated = [JString uid_A], draws = 0\<rparr>,
              map_tbl = [(0::nat, JString uid_A)]\<rparr>"
  let ?g1 = "\<lparr>generator = \<lparr>generated = [JString uid_0], draws = 1\<rparr>,
                     map_tbl = [(0::nat, JString uid_0)]\<rparr>"
  let ?g2 = "\<lparr>generator = \<lparr>generated = [JString uid_0, JString uid_1], draws = 2\<rparr>,
                     map_tbl = [(0::nat, JString uid_1)]\<rparr>"
  have dk: "deleteEntryForKey ?s 0 = (?d, True)"
    by (simp add: deleteEntryForKey_def eval_defs)
  have du: "deleteEntryForUID ?s (JString uid_0) = (?d, True)"
    by (simp add: deleteEntryForUID_def eval_defs)
  have v: "list_all re_test (uids ?d)" "list_all re_test (uids ?t)"
    by (simp_all add: eval_defs)
  have se: "setEntries rnd0 (KDUIDManager ()) (EntriesArray [Entry (0::nat) (JString uid_A)])
     = Some (?t, Return (Report [] []))"
    by (simp add: eval_defs)
  have ge: "generateUIDFor rnd0 ?g1 0 = Some (uid_1, ?g2)"
    by (simp add: eval_defs)
  have rs: "uids (reset ?s) = []"
    by (simp add: reset_def eval_defs)
  from dk du v se ge rs
    seen_set_after_structural_change [of ?s 0 ?d "JString uid_0" rnd0 "[]" "[]" "[]" uid_1]
    seen_set_after_structural_change [of "KDUIDManager ()" 0 ?t "JString uid_0" rnd0
      "[Entry (0::nat) (JString uid_A)]" "[]" "[]" uid_1]
    seen_set_after_structural_change [of ?g1 0 ?g2 "JString uid_0" rnd0 "[]" "[]" "[]" uid_1]
  show ?thesis by simp
qed

text \<open>
  C8 as stated fails in a state that \<open>setEntries\<close> can leave behind. With a random
  source whose first draw formats to the identifier of the second pair, the identifier
  generated for the third pair repeats that of the second. Then \<open>generateUIDFor\<close> on
  the second entity stores a new identifier, but the old one still resolves through
  \<open>getKeyFor\<close>, to the third entity.
\<close>
theorem old_identifier_still_resolves:
  "setEntries rnd0 (KDUIDManager ())
       (EntriesArray [Entry (0::nat) (JString uid_A), Entry 1 (JString uid_0), Entry 2 (JString uid_A)])
     = Some (\<lparr>generator = \<lparr>generated = [JString uid_A, JString uid_0, JString uid_0], draws = 1\<rparr>,
              map_tbl = [(0, JString uid_A), (1, JString uid_0), (2, JString uid_0)]\<rparr>,
             Return (Report [(2, uid_0)] []))
   \<and> getUIDFor \<lparr>generator = \<lparr>generated = [JString uid_A, JString uid_0, JString uid_0], draws = 1\<rparr>,
              map_tbl = [(0::nat, JString uid_A), (1, JString uid_0), (2, JString uid_0)]\<rparr> 1
     = JString uid_0
   \<and> generateUIDFor rnd0 \<lparr>generator = \<lparr>generated = [JString uid_A, JString uid_0, JString uid_0], draws = 1\<rparr>,
              map_tbl = [(0::nat, JString uid_A), (1, JString uid_0), (2, JString uid_0)]\<rparr> 1
     = Some (uid_1, \<lparr>generator = \<lparr>generated = [JString uid_A, JString uid_0, JString uid_0, JString uid_1], draws = 2\<rparr>,
              map_tbl = [(0, JString uid_A), (2, JString uid_0), (1, JString uid_1)]\<rparr>)
   \<and> getKeyFor \<lparr>generator = \<lparr>generated = [JString uid_A, JString uid_0, JString uid_0, JString uid_1], draws = 2\<rparr>,
              map_tbl = [(0::nat, JString uid_A), (2, JString uid_0), (1, JString uid_1)]\<rparr> (JString uid_0)
     = Some 2"
  by (simp add: eval_defs getUIDFor_def map_get_def getKeyFor_def)

text \<open>
  The identifier of the entity has to be in the generator's list for the new one to
  differ from it. When an identifier that fails validation is stored next to it,
  \<open>setExisting\<close> rejects the list of values and the generator's list stays as it was;
  the next \<open>generateUIDFor\<close> can then return the identifier the entity already has.
\<close>

lemma generateUIDFor_repeats_unseen_identifier:
  "setEntries rnd0 (KDUIDManager ())
       (EntriesArray [Entry (0::nat) (JString uid_0), Entry 1 (JString ''not-a-uid'')])
     = Some (\<lparr>generator = \<lparr>generated = [], draws = 0\<rparr>,
              map_tbl = [(0, JString uid_0), (1, JString ''not-a-uid'')]\<rparr>,
             Return (Report [] []))
   \<and> generateUIDFor rnd0 \<lparr>generator = \<lparr>generated = [], draws = 0\<rparr>,
              map_tbl = [(0::nat, JString uid_0), (1, JString ''not-a-uid'')]\<rparr> 0
     = Some (uid_0, \<lparr>generator = \<lparr>generated = [JString uid_0], draws = 1\<rparr>,
              map_tbl = [(1, JString ''not-a-uid''), (0, JString uid_0)]\<rparr>)"
  by (simp add: eval_defs)

text \<open>
  C8, amended: in a manager whose stored identifiers are pairwise distinct, for an entity
  whose identifier \<open>u_old\<close> is in the generator's list, and with a random source that
  at some later draw yields an identifier not in that list, \<open>generateUIDFor\<close> returns a
  new identifier \<open>u_new\<close>; afterwards \<open>hasUIDFor\<close> is true, \<open>getUIDFor\<close> gives
  \<open>u_new\<close>, which differs from \<open>u_old\<close>, and \<open>getKeyFor\<close> of \<open>u_old\<close> finds
  nothing.
\<close>
theorem generateUIDFor_replaces_association:
  assumes has: "hasUIDFor s k" and old: "getUIDFor s k = u_old"
    and dist: "distinct (uids s)"
    and seen: "u_old \<in> set (generated (generator s))"
    and fresh: "JString (formatUid (rnd (draws (generator s) + n))) \<notin> set (generated (generator s))"
  shows "\<exists>u_new s'. generateUIDFor rnd s k = Some (u_new, s')
           \<and> hasUIDFor s' k \<and> getUIDFor s' k = JString u_new
           \<and> JString u_new \<noteq> u_old \<and> getKeyFor s' u_old = None"
proof -
  from generate_returns [of rnd "generator s" n, OF fresh] obtain u g where "generate rnd (generator s) = Some (u, g)"
    by blast
  from generateUIDFor_returns [OF this] obtain s' where r: "generateUIDFor rnd s k = Some (u, s')"
    by blast
  note m = generateUIDFor_result(2) [OF r]
  from generateUIDFor_seen(3) [OF r] seen have ne: "JString u \<noteq> u_old" by auto
  have h: "hasUIDFor s' k" by (simp add: hasUIDFor_def map_has_def m)
  have g: "getUIDFor s' k = JString u"
    by (simp only: getUIDFor_def map_get_def m map_of_delete_append option.case)
  from has old have in_m: "(k, u_old) \<in> set (map_tbl s)"
    using map_get_in_set [of k "map_tbl s"] by (simp add: hasUIDFor_def getUIDFor_def)
  have "u_old \<notin> set (map snd (map_delete k (map_tbl s)))"
  proof
    assume "u_old \<in> set (map snd (map_delete k (map_tbl s)))"
    then obtain k' where k': "(k', u_old) \<in> set (map_tbl s)" "k' \<noteq> k"
      by (auto simp: map_delete_def)
    from dist have "distinct (map snd (map_tbl s))" by (simp add: uids_def)
    from distinct_values_key [OF this in_m k'(1)] k'(2) show False by simp
  qed
  with ne have "getKeyFor s' u_old = None"
    by (auto simp: getKeyFor_def getKeyFor_loop_None_iff m)
  with r h g ne show ?thesis by blast
qed

theorem generateUIDFor_replaces_association_witness:
  "hasUIDFor \<lparr>generator = \<lparr>generated = [JString uid_0], draws = 1\<rparr>,
              map_tbl = [(0::nat, JString uid_0)]\<rparr> 0
   \<and> getUIDFor \<lparr>generator = \<lparr>generated = [JString uid_0], draws = 1\<rparr>,
              map_tbl = [(0::nat, JString uid_0)]\<rparr> 0 = JString uid_0
   \<and> distinct (uids \<lparr>generator = \<lparr>generated = [JString uid_0], draws = 1\<rparr>,
              map_tbl = [(0::nat, JString uid_0)]\<rparr>)
   \<and> JString uid_0 \<in> set [JString uid_0]
   \<and> JString (formatUid (rnd0 (1 + 0))) \<notin> set [JString uid_0]
   \<and> (\<exists>u_new s'. generateUIDFor rnd0 \<lparr>generator = \<lparr>generated = [JString uid_0], draws = 1\<rparr>,
              map_tbl = [(0::nat, JString uid_0)]\<rparr> 0 = Some (u_new, s')
           \<and> hasUIDFor s' 0 \<and> getUIDFor s' 0 = JString u_new
           \<and> JString u_new \<noteq> JString uid_0 \<and> getKeyFor s' (JString uid_0) = None)"
proof -
  let ?s = "\<lparr>generator = \<lparr>generated = [JString uid_0], draws = 1\<rparr>,
              map_tbl = [(0::nat, JString uid_0)]\<rparr>"
  have a: "hasUIDFor ?s 0" "getUIDFor ?s 0 = JString uid_0" "distinct (uids ?s)"
    "JString uid_0 \<in> set (generated (generator ?s))"
    "JString (formatUid (rnd0 (draws (generator ?s) + 0))) \<notin> set (generated (generator ?s))"
    by (simp_all add: hasUIDFor_def getUIDFor_def map_get_def map_has_def uids_def rnd0_1)
  from generateUIDFor_replaces_association [of ?s 0 "JString uid_0" rnd0 0, OF a] a show ?thesis by simp
qed

section \<open>Uniqueness of generated identifiers\<close>

lemma setExisting_keeps:
  assumes "snd (setExisting g uuids) \<longrightarrow> set (generated g) \<subseteq> set uuids"
  shows "set (generated g) \<subseteq> set (generated (fst (setExisting g uuids)))"
  using assms by (simp add: setExisting_cases split: if_splits)

lemma run_ops_distinct:
  assumes "run_ops rnd g ops = Some (outs, g')" and "keeps_seen rnd g ops"
  shows "distinct outs" and "\<forall>u\<in>set outs. JString u \<notin> set (generated g)"
    and "set (generated g) \<subseteq> set (generated g')"
    and "\<forall>u\<in>set outs. JString u \<in> set (generated g')"
proof -
  have "distinct outs \<and> (\<forall>u\<in>set outs. JString u \<notin> set (generated g))
      \<and> set (generated g) \<subseteq> set (generated g')
      \<and> (\<forall>u\<in>set outs. JString u \<in> set (generated g'))"
    using assms
  proof (induction ops arbitrary: g outs)
    case Nil
    then show ?case by simp
  next
    case (Cons c ops)
    show ?case
    proof (cases c)
      case Generate
      with Cons.prems(1) obtain u g1 outs1 where
        g: "generate rnd g = Some (u, g1)" and r: "run_ops rnd g1 ops = Some (outs1, g')"
        and o: "outs = u # outs1"
        by (auto split: option.splits)
      from Cons.prems(2) Generate g have "keeps_seen rnd g1 ops" by simp
      from Cons.IH [OF r this] have ih: "distinct outs1"
        "\<forall>u\<in>set outs1. JString u \<notin> set (generated g1)"
        "set (generated g1) \<subseteq> set (generated g')"
        "\<forall>u\<in>set outs1. JString u \<in> set (generated g')"
        by simp_all
      note gs = generate_sound(1,2) [OF g]
      from ih gs o show ?thesis by auto
    next
      case GetExisting
      with Cons show ?thesis by simp
    next
      case (SetExisting uuids)
      let ?g1 = "fst (setExisting g uuids)"
      from Cons.prems SetExisting have r: "run_ops rnd ?g1 ops = Some (outs, g')"
        and k: "keeps_seen rnd ?g1 ops"
        and sub: "set (generated g) \<subseteq> set (generated ?g1)"
        by (simp_all add: setExisting_keeps)
      from Cons.IH [OF r k] sub show ?thesis by auto
    next
      case (Validate a)
      with Cons show ?thesis by simp
    qed
  qed
  then show "distinct outs" and "\<forall>u\<in>set outs. JString u \<notin> set (generated g)"
    and "set (generated g) \<subseteq> set (generated g')"
    and "\<forall>u\<in>set outs. JString u \<in> set (generated g')"
    by simp_all
qed

text \<open>
  C4 as stated fails for an interleaving with \<open>setExisting\<close>: after
  \<open>setExisting([])\<close> has emptied the generator's list, a random source that repeats
  its values makes the second \<open>generate()\<close> return the string the first returned.
\<close>

theorem generate_repeats_after_setExisting:
  "run_ops rnd_same (KDUID None) [Generate, SetExisting [], Generate]
     = Some ([uid_0, uid_0], \<lparr>generated = [JString uid_0], draws = 2\<rparr>)"
  by (simp add: KDUID_def generate_first rnd_same_uid setExisting_def validator_def)

text \<open>
  C4, amended: over any sequence of operations of one generator in which every
  \<open>setExisting\<close> call that succeeds is given a list holding all the identifiers then in
  the generator's list (a call that is rejected changes nothing), the strings returned by
  \<open>generate()\<close> are pairwise distinct and none of them is in the generator's list at
  the start, which for a new instance is the list supplied at construction; the
  generator's list at the end holds the list at the start and every string returned.
\<close>

theorem generate_outputs_distinct:
  assumes "run_ops rnd g ops = Some (outs, g')" and "keeps_seen rnd g ops"
  shows "distinct outs \<and> (\<forall>u\<in>set outs. JString u \<notin> set (generated g))
     \<and> set (generated g) \<subseteq> set (generated g')
     \<and> (\<forall>u\<in>set outs. JString u \<in> set (generated g'))
     \<and> generated (KDUID (Some seed)) = seed \<and> generated (KDUID None) = []"
  using run_ops_distinct [OF assms] by (simp add: KDUID_def)

theorem generate_outputs_distinct_witness:
  "run_ops rnd0 (KDUID (Some [JString uid_A]))
       [Generate, SetExisting [JString uid_0, JString uid_A, JString uid_a],
        SetExisting [JString ''not-a-uid''], GetExisting, Validate (Single (JString uid_A)),
        Generate]
     = Some ([uid_0, uid_1],
             \<lparr>generated = [JString uid_0, JString uid_A, JString uid_a, JString uid_1], draws = 2\<rparr>)
   \<and> keeps_seen rnd0 (KDUID (Some [JString uid_A]))
       [Generate, SetExisting [JString uid_0, JString uid_A, JString uid_a],
        SetExisting [JString ''not-a-uid''], GetExisting, Validate (Single (JString uid_A)),
        Generate]
   \<and> distinct [uid_0, uid_1]
   \<and> JString uid_0 \<notin> set (generated (KDUID (Some [JString uid_A])))
   \<and> JString uid_1 \<notin> set (generated (KDUID (Some [JString uid_A])))"
proof -
  let ?ops = "[Generate, SetExisting [JString uid_0, JString uid_A, JString uid_a],
        SetExisting [JString ''not-a-uid''], GetExisting, Validate (Single (JString uid_A)),
        Generate]"
  have r: "run_ops rnd0 (KDUID (Some [JString uid_A])) ?ops
     = Some ([uid_0, uid_1],
             \<lparr>generated = [JString uid_0, JString uid_A, JString uid_a, JString uid_1], draws = 2\<rparr>)"
    by (simp add: KDUID_def generate_first rnd0_0 rnd0_1 setExisting_cases not_a_uid_invalid
        uid_0_valid uid_A_valid uid_a_valid)
  have k: "keeps_seen rnd0 (KDUID (Some [JString uid_A])) ?ops"
    by (simp add: KDUID_def generate_first rnd0_0 rnd0_1 setExisting_cases not_a_uid_invalid
        uid_0_valid uid_A_valid uid_a_valid)
  from generate_outputs_distinct [OF r k] r k show ?thesis by simp
qed

end
